theory Spec2Isabelle
  imports Main
begin

section \<open>Data model of the description filter\<close>

text \<open>
  The theory embeds \<^verbatim>\<open>src/xdress/descfilter.py\<close>: the function \<^verbatim>\<open>modify_desc\<close> and
  the methods \<^verbatim>\<open>setup\<close>, \<^verbatim>\<open>skip_types\<close>, \<^verbatim>\<open>skip_methods\<close>, \<^verbatim>\<open>skip_attrs\<close>,
  \<^verbatim>\<open>include_methods\<close>, \<^verbatim>\<open>skip_auto\<close> and \<^verbatim>\<open>execute\<close> of \<^verbatim>\<open>XDressPlugin\<close>.

  The module is written for Python 2: \<^verbatim>\<open>filter(f, m_nms)[0]\<close> indexes the list that
  \<^verbatim>\<open>filter\<close> returns there, and \<^verbatim>\<open>d.keys()\<close>, \<^verbatim>\<open>d.items()\<close> are lists copied from the
  dictionary at the time of the call. The embedding follows these semantics.

  A Python dictionary is an association list whose order is the iteration order of the
  dictionary; its keys are pairwise distinct (\<open>wf_class\<close> below states this where a
  theorem needs it). Deleting a key keeps the order of the other entries, and a key that
  is new to the dictionary is put at the end.
\<close>

text \<open>
  Modelled from the spec: the type descriptors (section 3 of the specification). The
  module only passes them to \<^verbatim>\<open>TypeMatcher.flatmatches\<close> and to \<^verbatim>\<open>rc.ts.canon\<close>.
\<close>

datatype ty = Atom string | Qualified ty string | Parametrized string "ty list"

text \<open>
  Modelled from the spec: \<^verbatim>\<open>xdress.type.matching.TypeMatcher\<close> is imported by the
  module and is not part of the source at hand. A matcher wraps one pattern; a bare atom
  matches every descriptor that contains the atom, a compound pattern matches the
  structurally equal descriptor only (section 4.1 of the specification).
\<close>

datatype matcher = TypeMatcher ty

fun flatten :: "ty \<Rightarrow> string list" where
  "flatten (Atom n) = [n]"
| "flatten (Qualified t q) = flatten t @ [q]"
| "flatten (Parametrized h ts) = h # concat (map flatten ts)"

fun flatmatches :: "matcher \<Rightarrow> ty \<Rightarrow> bool" where
  "flatmatches (TypeMatcher (Atom a)) t = (a \<in> set (flatten t))"
| "flatmatches (TypeMatcher p) t = (t = p)"

text \<open>
  An argument of a signature is the tuple \<^verbatim>\<open>(name, type)\<close> or
  \<^verbatim>\<open>(name, type, default)\<close>; \<^verbatim>\<open>arg[1]\<close> reads the type of either.
\<close>

datatype arg = Arg string ty | ArgDefault string ty string

fun type_of_arg :: "arg \<Rightarrow> ty" where
  "type_of_arg (Arg n t) = t"
| "type_of_arg (ArgDefault n t d) = t"

text \<open>
  The first component \<^verbatim>\<open>x[0]\<close> of a signature is the method name: a string, or a tuple
  whose first component is the string (\<^verbatim>\<open>x[0][0]\<close> in \<^verbatim>\<open>skip_methods\<close>).
\<close>

datatype mname = MName string | MTemplate string "ty list"

type_synonym msig = "mname \<times> arg list"

type_synonym attrs_dict = "(string \<times> ty) list"

type_synonym methods_dict = "(msig \<times> ty option) list"

text \<open>
  A class description: \<^verbatim>\<open>desc['name']['tarname']\<close>, \<^verbatim>\<open>desc['attrs']\<close> and
  \<^verbatim>\<open>desc['methods']\<close>. The value stored under a signature is \<^verbatim>\<open>None\<close> or a dictionary
  with the key \<^verbatim>\<open>'return'\<close>.
\<close>

record classdesc =
  tarname :: string
  attrs :: attrs_dict
  methods :: methods_dict

text \<open>
  Modelled from the spec: \<^verbatim>\<open>xdress.utils.isclassdesc\<close> is not part of the source at
  hand; an entry of a module is a class description or something else, and only class
  descriptions take part.
\<close>

datatype desc = ClassDesc classdesc | OtherDesc string

type_synonym module = "(string \<times> desc) list"

type_synonym env = "(string \<times> module) list"

datatype pykey = KName string | KSig msig

datatype error =
    AttributeError string
  | KeyError pykey
  | ValueError
  | MalformedPattern

text \<open>
  A printed line is the format string together with the arguments of \<^verbatim>\<open>format\<close>.
\<close>

datatype fmtarg = FStr string | FName mname | FType ty | FMatchers "matcher list"

type_synonym message = "string \<times> fmtarg list"

text \<open>
  The value of \<^verbatim>\<open>rc.skiptypes\<close>: the sentinel \<^verbatim>\<open>NotSpecified\<close>, a mapping, a sequence, or
  a value that is none of these (\<^verbatim>\<open>None\<close>, for one). Before \<^verbatim>\<open>setup\<close> the elements are
  raw patterns, after it they are matchers.
\<close>

datatype 'p skiptypes =
    NotSpecified
  | Mapping "(string \<times> 'p list) list"
  | Sequence "'p list"
  | Unrecognised

text \<open>
  The run control. \<open>skips\<close> is the attribute \<^verbatim>\<open>rc.skips\<close>, which \<^verbatim>\<open>skip_types\<close> reads and
  which \<^verbatim>\<open>defaultrc\<close> does not define: \<open>None\<close> is the run control without this
  attribute. For the four other rule fields \<open>None\<close> is \<^verbatim>\<open>NotSpecified\<close>. \<open>ts\<close> is
  \<^verbatim>\<open>rc.ts.canon\<close>, with \<open>None\<close> for the \<^verbatim>\<open>TypeError\<close> it raises on an unknown type.
  \<open>stdout\<close> collects what the passes print.
\<close>

record 'p rc =
  skiptypes :: "'p skiptypes"
  skips :: "(string \<times> matcher list) list option"
  skipmethods :: "(string \<times> string list) list option"
  skipattrs :: "(string \<times> string list) list option"
  includemethods :: "(string \<times> mname list) list option"
  skipauto :: "bool option"
  verbose :: bool
  ts :: "ty \<Rightarrow> ty option"
  env :: env
  stdout :: "message list"

section \<open>Dictionaries\<close>

definition dict_del :: "'k \<Rightarrow> ('k \<times> 'v) list \<Rightarrow> ('k \<times> 'v) list" where
  "dict_del k d = filter (\<lambda>kv. fst kv \<noteq> k) d"

definition dict_set :: "'k \<Rightarrow> 'v \<Rightarrow> ('k \<times> 'v) list \<Rightarrow> ('k \<times> 'v) list" where
  "dict_set k v d =
     (if k \<in> set (map fst d) then map (\<lambda>kv. if fst kv = k then (k, v) else kv) d
      else d @ [(k, v)])"


section \<open>modify_desc\<close>

text \<open>
  \<^verbatim>\<open>for tm in skips: if tm.flatmatches(t): del ...; break\<close>. The result is whether the
  entry is deleted, together with the calls of \<^verbatim>\<open>flatmatches\<close> in the order made.
\<close>

fun scan_skips :: "matcher list \<Rightarrow> ty \<Rightarrow> bool \<times> (matcher \<times> ty) list" where
  "scan_skips [] t = (False, [])"
| "scan_skips (tm # tms) t =
     (if flatmatches tm t then (True, [(tm, t)])
      else (case scan_skips tms t of (d, calls) \<Rightarrow> (d, (tm, t) # calls)))"

text \<open>
  The loop over the return type: \<^verbatim>\<open>m_ret and tm.flatmatches(m_ret['return'])\<close> calls
  no matcher when \<^verbatim>\<open>m_ret\<close> is \<^verbatim>\<open>None\<close>.
\<close>

fun scan_return :: "matcher list \<Rightarrow> ty option \<Rightarrow> bool \<times> (matcher \<times> ty) list" where
  "scan_return sks None = (False, [])"
| "scan_return sks (Some r) = scan_skips sks r"

fun scan_args :: "matcher list \<Rightarrow> arg list \<Rightarrow> bool \<times> (matcher \<times> ty) list" where
  "scan_args sks [] = (False, [])"
| "scan_args sks (a # as) =
     (case scan_skips sks (type_of_arg a) of
        (True, calls) \<Rightarrow> (True, calls)
      | (False, calls) \<Rightarrow>
          (case scan_args sks as of (d, calls') \<Rightarrow> (d, calls @ calls')))"

definition scan_method :: "matcher list \<Rightarrow> msig \<Rightarrow> ty option \<Rightarrow> bool \<times> (matcher \<times> ty) list" where
  "scan_method sks m_key m_ret =
     (case scan_return sks m_ret of
        (True, calls) \<Rightarrow> (True, calls)
      | (False, calls) \<Rightarrow>
          (case scan_args sks (snd m_key) of (d, calls') \<Rightarrow> (d, calls @ calls')))"

text \<open>
  The two outer loops run over a copy of the dictionary and delete from the dictionary
  itself.
\<close>

fun remove_attrs :: "matcher list \<Rightarrow> attrs_dict \<Rightarrow> attrs_dict \<Rightarrow> attrs_dict" where
  "remove_attrs sks [] d = d"
| "remove_attrs sks ((at_name, at_t) # rest) d =
     remove_attrs sks rest
       (if fst (scan_skips sks at_t) then dict_del at_name d else d)"

fun remove_methods :: "matcher list \<Rightarrow> methods_dict \<Rightarrow> methods_dict \<Rightarrow> methods_dict" where
  "remove_methods sks [] d = d"
| "remove_methods sks ((m_key, m_ret) # rest) d =
     remove_methods sks rest
       (if fst (scan_method sks m_key m_ret) then dict_del m_key d else d)"

definition modify_desc :: "matcher list \<Rightarrow> classdesc \<Rightarrow> classdesc" where
  "modify_desc sks desc =
     desc\<lparr>attrs := remove_attrs sks (attrs desc) (attrs desc),
          methods := remove_methods sks (methods desc) (methods desc)\<rparr>"

section \<open>The loops over the registry\<close>

text \<open>
  Every pass runs \<^verbatim>\<open>for m_key, mod in rc.env.items(): for k_key, desc in mod.items():
  if isclassdesc(desc): ...\<close>. The body gets the key of the class and its description
  and returns the description as it leaves it, with the lines it prints; an exception
  leaves both loops.
\<close>

fun for_module ::
  "(string \<Rightarrow> classdesc \<Rightarrow> error + classdesc \<times> message list) \<Rightarrow> module
     \<Rightarrow> error + module \<times> message list" where
  "for_module body [] = Inr ([], [])"
| "for_module body ((k_key, OtherDesc x) # rest) =
     (case for_module body rest of
        Inl e \<Rightarrow> Inl e
      | Inr (rest', out) \<Rightarrow> Inr ((k_key, OtherDesc x) # rest', out))"
| "for_module body ((k_key, ClassDesc c) # rest) =
     (case body k_key c of
        Inl e \<Rightarrow> Inl e
      | Inr (c', out) \<Rightarrow>
          (case for_module body rest of
             Inl e \<Rightarrow> Inl e
           | Inr (rest', out') \<Rightarrow> Inr ((k_key, ClassDesc c') # rest', out @ out')))"

fun for_env ::
  "(string \<Rightarrow> classdesc \<Rightarrow> error + classdesc \<times> message list) \<Rightarrow> env
     \<Rightarrow> error + env \<times> message list" where
  "for_env body [] = Inr ([], [])"
| "for_env body ((m_key, md) # rest) =
     (case for_module body md of
        Inl e \<Rightarrow> Inl e
      | Inr (md', out) \<Rightarrow>
          (case for_env body rest of
             Inl e \<Rightarrow> Inl e
           | Inr (rest', out') \<Rightarrow> Inr ((m_key, md') # rest', out @ out')))"

definition run_pass ::
  "message list \<Rightarrow> (string \<Rightarrow> classdesc \<Rightarrow> error + classdesc \<times> message list) \<Rightarrow> 'p rc
     \<Rightarrow> error + 'p rc" where
  "run_pass header body r =
     (case for_env body (env r) of
        Inl e \<Rightarrow> Inl e
      | Inr (env', out) \<Rightarrow> Inr (r\<lparr>env := env', stdout := stdout r @ header @ out\<rparr>))"

section \<open>setup\<close>

text \<open>
  \<^verbatim>\<open>[TypeMatcher(t) for t in ...]\<close>: the constructor is a parameter \<open>new_tm\<close>; the
  first element it rejects ends the comprehension with its exception.
\<close>

fun map_err :: "('a \<Rightarrow> error + 'b) \<Rightarrow> 'a list \<Rightarrow> error + 'b list" where
  "map_err f [] = Inr []"
| "map_err f (x # xs) =
     (case f x of
        Inl e \<Rightarrow> Inl e
      | Inr y \<Rightarrow> (case map_err f xs of Inl e \<Rightarrow> Inl e | Inr ys \<Rightarrow> Inr (y # ys)))"

definition with_skiptypes :: "'q skiptypes \<Rightarrow> message list \<Rightarrow> 'p rc \<Rightarrow> 'q rc" where
  "with_skiptypes st out r =
     \<lparr>skiptypes = st, skips = skips r, skipmethods = skipmethods r,
      skipattrs = skipattrs r, includemethods = includemethods r,
      skipauto = skipauto r, verbose = verbose r, ts = ts r, env = env r,
      stdout = stdout r @ out\<rparr>"

definition setup_rc :: "('p \<Rightarrow> error + matcher) \<Rightarrow> 'p rc \<Rightarrow> error + matcher rc" where
  "setup_rc new_tm r =
     (case skiptypes r of
        NotSpecified \<Rightarrow> Inr (with_skiptypes NotSpecified [] r)
      | Mapping m \<Rightarrow>
          (case map_err (\<lambda>(kls, raw).
                   case map_err new_tm raw of Inl e \<Rightarrow> Inl e | Inr tms \<Rightarrow> Inr (kls, tms)) m of
             Inl e \<Rightarrow> Inl e
           | Inr skippers \<Rightarrow> Inr (with_skiptypes (Mapping skippers) [] r))
      | Sequence s \<Rightarrow>
          (case map_err new_tm s of
             Inl e \<Rightarrow> Inl e
           | Inr tms \<Rightarrow>
               Inr (with_skiptypes (Sequence tms)
                      (if verbose r
                       then [(''descfilter: skipping these types: {0}'', [FMatchers tms])]
                       else []) r))
      | Unrecognised \<Rightarrow> Inr (with_skiptypes Unrecognised [] r))"

section \<open>skip_types\<close>

definition skip_types_class ::
  "string list \<Rightarrow> (string \<times> matcher list) list option \<Rightarrow> string \<Rightarrow> classdesc
     \<Rightarrow> error + classdesc \<times> message list" where
  "skip_types_class skip_classes rc_skips kls_key desc =
     (if tarname desc \<in> set skip_classes then
        (case rc_skips of
           None \<Rightarrow> Inl (AttributeError ''skips'')
         | Some sk \<Rightarrow>
             (case map_of sk (tarname desc) of
                None \<Rightarrow> Inl (KeyError (KName (tarname desc)))
              | Some sks \<Rightarrow> Inr (modify_desc sks desc, [])))
      else Inr (desc, []))"

definition skip_types :: "matcher rc \<Rightarrow> error + matcher rc" where
  "skip_types r =
     (case skiptypes r of
        NotSpecified \<Rightarrow> Inr r
      | Mapping m \<Rightarrow>
          run_pass [(''descfilter: removing unwanted types from desc dictionary'', [])]
            (skip_types_class (map fst m) (skips r)) r
      | Sequence s \<Rightarrow>
          run_pass [(''descfilter: removing unwanted types from desc dictionary'', [])]
            (\<lambda>kls_key desc. Inr (modify_desc s desc, [])) r
      | Unrecognised \<Rightarrow>
          Inr (r\<lparr>stdout := stdout r @
                 [(''descfilter: removing unwanted types from desc dictionary'', [])]\<rparr>))"

section \<open>skip_methods\<close>

fun startswith :: "string \<Rightarrow> string \<Rightarrow> bool" where
  "startswith s [] = True"
| "startswith [] (c # cs) = False"
| "startswith (x # xs) (c # cs) = (x = c \<and> startswith xs cs)"

text \<open>
  \<^verbatim>\<open>lambda x: x[0].startswith(m) if isinstance(x[0], basestring)
  else x[0][0].startswith(m)\<close>
\<close>

fun name_startswith :: "string \<Rightarrow> msig \<Rightarrow> bool" where
  "name_startswith m (MName s, args) = startswith s m"
| "name_startswith m (MTemplate s targs, args) = startswith s m"

text \<open>
  The loop over the prefixes of one class. \<open>m_nms\<close> is the list of keys taken before
  the loop; \<open>meths\<close> is the dictionary the loop deletes from. An empty \<^verbatim>\<open>filter\<close> result
  raises the \<^verbatim>\<open>IndexError\<close> that the loop catches; \<^verbatim>\<open>del\<close> of a key that is no longer in
  the dictionary raises \<^verbatim>\<open>KeyError\<close>, which nothing catches.
\<close>

fun skip_prefixes ::
  "string \<Rightarrow> msig list \<Rightarrow> string list \<Rightarrow> methods_dict
     \<Rightarrow> error + methods_dict \<times> message list" where
  "skip_prefixes k_key m_nms [] meths = Inr (meths, [])"
| "skip_prefixes k_key m_nms (m # rest) meths =
     (case filter (name_startswith m) m_nms of
        [] \<Rightarrow>
          (case skip_prefixes k_key m_nms rest meths of
             Inl e \<Rightarrow> Inl e
           | Inr (meths', out) \<Rightarrow>
               Inr (meths',
                    (''descfilter: Could not find method {0} in {1}. Moving on to next method'',
                     [FStr m, FStr k_key]) # out))
      | del_key # others \<Rightarrow>
          (if del_key \<in> set (map fst meths)
           then skip_prefixes k_key m_nms rest (dict_del del_key meths)
           else Inl (KeyError (KSig del_key))))"

definition skip_methods_class ::
  "(string \<times> string list) list \<Rightarrow> string \<Rightarrow> classdesc \<Rightarrow> error + classdesc \<times> message list" where
  "skip_methods_class rules k_key kls_desc =
     (if tarname kls_desc \<in> set (map fst rules) then
        (case map_of rules k_key of
           None \<Rightarrow> Inl (KeyError (KName k_key))
         | Some skippers \<Rightarrow>
             (case skip_prefixes k_key (map fst (methods kls_desc)) skippers
                     (methods kls_desc) of
                Inl e \<Rightarrow> Inl e
              | Inr (meths', out) \<Rightarrow> Inr (kls_desc\<lparr>methods := meths'\<rparr>, out)))
      else Inr (kls_desc, []))"

definition skip_methods :: "'p rc \<Rightarrow> error + 'p rc" where
  "skip_methods r =
     (case skipmethods r of
        None \<Rightarrow> Inr r
      | Some rules \<Rightarrow>
          run_pass [(''descfilter: removing 'skipmethods' from desc dictionary'', [])]
            (skip_methods_class rules) r)"

section \<open>skip_attrs\<close>

fun skip_names :: "string \<Rightarrow> string list \<Rightarrow> attrs_dict \<Rightarrow> attrs_dict \<times> message list" where
  "skip_names k_key [] a_nms = (a_nms, [])"
| "skip_names k_key (m # rest) a_nms =
     (if m \<in> set (map fst a_nms) then skip_names k_key rest (dict_del m a_nms)
      else (case skip_names k_key rest a_nms of
              (a', out) \<Rightarrow>
                (a', (''descfilter: Could not find attr {0} in {1}. Moving on to next attr'',
                      [FStr m, FStr k_key]) # out)))"

definition skip_attrs_class ::
  "(string \<times> string list) list \<Rightarrow> string \<Rightarrow> classdesc \<Rightarrow> error + classdesc \<times> message list" where
  "skip_attrs_class rules k_key kls_desc =
     (if tarname kls_desc \<in> set (map fst rules) then
        (case map_of rules k_key of
           None \<Rightarrow> Inl (KeyError (KName k_key))
         | Some skippers \<Rightarrow>
             (case skip_names k_key skippers (attrs kls_desc) of
                (a', out) \<Rightarrow> Inr (kls_desc\<lparr>attrs := a'\<rparr>, out)))
      else Inr (kls_desc, []))"

definition skip_attrs :: "'p rc \<Rightarrow> error + 'p rc" where
  "skip_attrs r =
     (case skipattrs r of
        None \<Rightarrow> Inr r
      | Some rules \<Rightarrow>
          run_pass [(''descfilter: removing 'skipattrs' from desc dictionary'', [])]
            (skip_attrs_class rules) r)"

section \<open>include_methods\<close>

text \<open>
  \<^verbatim>\<open>for mm in m_keep: new_meths[mm] = rc.env[m_key][k_key]['methods'][mm]\<close>
\<close>

fun copy_methods :: "methods_dict \<Rightarrow> msig list \<Rightarrow> methods_dict \<Rightarrow> error + methods_dict" where
  "copy_methods meths [] new_meths = Inr new_meths"
| "copy_methods meths (mm # rest) new_meths =
     (case map_of meths mm of
        None \<Rightarrow> Inl (KeyError (KSig mm))
      | Some info \<Rightarrow> copy_methods meths rest (dict_set mm info new_meths))"

definition include_methods_class ::
  "(string \<times> mname list) list \<Rightarrow> string \<Rightarrow> classdesc \<Rightarrow> error + classdesc \<times> message list" where
  "include_methods_class rules k_key kls_desc =
     (if tarname kls_desc \<in> set (map fst rules) then
        (case map_of rules k_key of
           None \<Rightarrow> Inl (KeyError (KName k_key))
         | Some names \<Rightarrow>
             (case copy_methods (methods kls_desc)
                     (filter (\<lambda>x. fst x \<in> set names) (map fst (methods kls_desc))) [] of
                Inl e \<Rightarrow> Inl e
              | Inr new_meths \<Rightarrow> Inr (kls_desc\<lparr>methods := new_meths\<rparr>, [])))
      else Inr (kls_desc, []))"

definition include_methods :: "'p rc \<Rightarrow> error + 'p rc" where
  "include_methods r =
     (case includemethods r of
        None \<Rightarrow> Inr r
      | Some rules \<Rightarrow>
          run_pass [(''descfilter: removing all but 'includemethods' from desc'', [])]
            (include_methods_class rules) r)"

section \<open>skip_auto\<close>

text \<open>
  The scan of the attributes: the names whose type \<^verbatim>\<open>canon\<close> rejects, and the lines
  printed for them.
\<close>

fun scan_attrs ::
  "(ty \<Rightarrow> ty option) \<Rightarrow> string \<Rightarrow> attrs_dict \<Rightarrow> string list \<times> message list" where
  "scan_attrs canon cls_name [] = ([], [])"
| "scan_attrs canon cls_name ((a_name, a_type) # rest) =
     (case scan_attrs canon cls_name rest of
        (bl, out) \<Rightarrow>
          (case canon a_type of
             None \<Rightarrow>
               (a_name # bl,
                (''descfilter: removing attribute {0} from class {1} since it uses unknown type {2}'',
                 [FStr a_name, FStr cls_name, FType a_type]) # out)
           | Some t \<Rightarrow> (bl, out)))"

text \<open>
  \<^verbatim>\<open>for _, arg_type in m_sig[1:]: ts.canon(arg_type)\<close>: unpacking a tuple of three
  components into two names raises \<^verbatim>\<open>ValueError\<close>, which the \<^verbatim>\<open>try\<close> does not catch.
  \<open>Inr (Some t)\<close> is the \<^verbatim>\<open>TypeError\<close> caught with \<^verbatim>\<open>arg_type\<close> bound to \<open>t\<close>.
\<close>

fun canon_args :: "(ty \<Rightarrow> ty option) \<Rightarrow> arg list \<Rightarrow> error + ty option" where
  "canon_args canon [] = Inr None"
| "canon_args canon (ArgDefault n t d # rest) = Inl ValueError"
| "canon_args canon (Arg n t # rest) =
     (case canon t of None \<Rightarrow> Inr (Some t) | Some t' \<Rightarrow> canon_args canon rest)"

fun canon_method :: "(ty \<Rightarrow> ty option) \<Rightarrow> msig \<Rightarrow> ty option \<Rightarrow> error + ty option" where
  "canon_method canon m_sig None = canon_args canon (snd m_sig)"
| "canon_method canon m_sig (Some r_type) =
     (case canon r_type of
        None \<Rightarrow> Inr (Some r_type)
      | Some t' \<Rightarrow> canon_args canon (snd m_sig))"

fun scan_methods ::
  "(ty \<Rightarrow> ty option) \<Rightarrow> string \<Rightarrow> methods_dict \<Rightarrow> error + msig list \<times> message list" where
  "scan_methods canon cls_name [] = Inr ([], [])"
| "scan_methods canon cls_name ((m_sig, m_attr) # rest) =
     (case canon_method canon m_sig m_attr of
        Inl e \<Rightarrow> Inl e
      | Inr failed \<Rightarrow>
          (case scan_methods canon cls_name rest of
             Inl e \<Rightarrow> Inl e
           | Inr (bl, out) \<Rightarrow>
               (case failed of
                  None \<Rightarrow> Inr (bl, out)
                | Some arg_type \<Rightarrow>
                    Inr (m_sig # bl,
                         (''descfilter: removing method {0} from class {1} since it uses unknown type {2}'',
                          [FName (fst m_sig), FStr cls_name, FType arg_type]) # out))))"

definition skip_auto_class ::
  "(ty \<Rightarrow> ty option) \<Rightarrow> string \<Rightarrow> classdesc \<Rightarrow> error + classdesc \<times> message list" where
  "skip_auto_class canon cls_name cls_desc =
     (case scan_attrs canon cls_name (attrs cls_desc) of
        (attr_blacklist, out) \<Rightarrow>
          (case scan_methods canon cls_name (methods cls_desc) of
             Inl e \<Rightarrow> Inl e
           | Inr (method_blacklist, out') \<Rightarrow>
               Inr (cls_desc\<lparr>attrs := fold dict_del attr_blacklist (attrs cls_desc),
                             methods := fold dict_del method_blacklist (methods cls_desc)\<rparr>,
                    out @ out')))"

definition skip_auto :: "'p rc \<Rightarrow> error + 'p rc" where
  "skip_auto r =
     (case skipauto r of
        None \<Rightarrow> Inr r
      | Some b \<Rightarrow> run_pass [] (skip_auto_class (ts r)) r)"

section \<open>execute\<close>

definition and_then :: "error + 'a \<Rightarrow> ('a \<Rightarrow> error + 'b) \<Rightarrow> error + 'b" where
  "and_then x f = (case x of Inl e \<Rightarrow> Inl e | Inr y \<Rightarrow> f y)"

definition execute :: "matcher rc \<Rightarrow> error + matcher rc" where
  "execute r =
     and_then (and_then (and_then (and_then (skip_types r) skip_methods) skip_attrs)
       skip_auto) include_methods"

text \<open>
  Modelled from the spec: the plugin driver, which is not part of the source at hand,
  calls \<^verbatim>\<open>setup\<close> and, when it returns, \<^verbatim>\<open>execute\<close> (sections 2 and 7 of the
  specification).
\<close>

definition run_plugin :: "('p \<Rightarrow> error + matcher) \<Rightarrow> 'p rc \<Rightarrow> error + matcher rc" where
  "run_plugin new_tm r = and_then (setup_rc new_tm r) execute"

section \<open>Notions used to state the properties\<close>

text \<open>
  The list \<open>xs\<close> up to and including its first element that satisfies \<open>P\<close>; all of
  \<open>xs\<close> when there is none.
\<close>

definition upto_first :: "('a \<Rightarrow> bool) \<Rightarrow> 'a list \<Rightarrow> 'a list" where
  "upto_first P xs = takeWhile (\<lambda>x. \<not> P x) xs @ take 1 (dropWhile (\<lambda>x. \<not> P x) xs)"

text \<open>
  The type sites of one method in the order in which \<^verbatim>\<open>modify_desc\<close> visits them: the
  return type, when there is one, paired with every matcher in list order, then each
  argument in declared order paired with every matcher in list order.
\<close>

definition check_sites :: "matcher list \<Rightarrow> msig \<Rightarrow> ty option \<Rightarrow> (matcher \<times> ty) list" where
  "check_sites sks m_key m_ret =
     (case m_ret of None \<Rightarrow> [] | Some r \<Rightarrow> map (\<lambda>tm. (tm, r)) sks) @
     concat (map (\<lambda>a. map (\<lambda>tm. (tm, type_of_arg a)) sks) (snd m_key))"

definition hits :: "matcher \<times> ty \<Rightarrow> bool" where
  "hits c = flatmatches (fst c) (snd c)"

text \<open>
  The types that \<^verbatim>\<open>skip_auto\<close> hands to \<^verbatim>\<open>canon\<close> for one method, in the order of the
  calls: the return type, when there is one, then the types of the arguments.
\<close>

definition method_types :: "msig \<Rightarrow> ty option \<Rightarrow> ty list" where
  "method_types m_sig m_attr =
     (case m_attr of None \<Rightarrow> [] | Some r \<Rightarrow> [r]) @ map type_of_arg (snd m_sig)"

text \<open>A property of every class description of a module, of a registry.\<close>

fun module_all :: "(string \<Rightarrow> classdesc \<Rightarrow> bool) \<Rightarrow> module \<Rightarrow> bool" where
  "module_all P [] = True"
| "module_all P ((k_key, OtherDesc x) # rest) = module_all P rest"
| "module_all P ((k_key, ClassDesc c) # rest) = (P k_key c \<and> module_all P rest)"

fun env_all :: "(string \<Rightarrow> classdesc \<Rightarrow> bool) \<Rightarrow> env \<Rightarrow> bool" where
  "env_all P [] = True"
| "env_all P ((m_key, md) # rest) = (module_all P md \<and> env_all P rest)"


text \<open>
  Two registries with the same modules, keys and other entries, whose class descriptions
  at the same place are related.
\<close>

fun module_rel :: "(string \<Rightarrow> classdesc \<Rightarrow> classdesc \<Rightarrow> bool) \<Rightarrow> module \<Rightarrow> module \<Rightarrow> bool" where
  "module_rel R [] [] = True"
| "module_rel R ((k, OtherDesc x) # rest) ((k', OtherDesc x') # rest') =
     (k = k' \<and> x = x' \<and> module_rel R rest rest')"
| "module_rel R ((k, ClassDesc c) # rest) ((k', ClassDesc c') # rest') =
     (k = k' \<and> R k c c' \<and> module_rel R rest rest')"
| "module_rel R md md' = False"

fun env_rel :: "(string \<Rightarrow> classdesc \<Rightarrow> classdesc \<Rightarrow> bool) \<Rightarrow> env \<Rightarrow> env \<Rightarrow> bool" where
  "env_rel R [] [] = True"
| "env_rel R ((m, md) # rest) ((m', md') # rest') =
     (m = m' \<and> module_rel R md md' \<and> env_rel R rest rest')"
| "env_rel R e e' = False"


text \<open>The body that each pass runs on the class descriptions, the identity when the rule is unset.\<close>

definition skip_types_body ::
  "matcher rc \<Rightarrow> string \<Rightarrow> classdesc \<Rightarrow> error + classdesc \<times> message list" where
  "skip_types_body r =
     (case skiptypes r of
        Mapping m \<Rightarrow> skip_types_class (map fst m) (skips r)
      | Sequence s \<Rightarrow> (\<lambda>kls_key desc. Inr (modify_desc s desc, []))
      | _ \<Rightarrow> (\<lambda>kls_key desc. Inr (desc, [])))"

definition skip_methods_body ::
  "'p rc \<Rightarrow> string \<Rightarrow> classdesc \<Rightarrow> error + classdesc \<times> message list" where
  "skip_methods_body r =
     (case skipmethods r of
        None \<Rightarrow> (\<lambda>k_key desc. Inr (desc, []))
      | Some rules \<Rightarrow> skip_methods_class rules)"

definition skip_attrs_body ::
  "'p rc \<Rightarrow> string \<Rightarrow> classdesc \<Rightarrow> error + classdesc \<times> message list" where
  "skip_attrs_body r =
     (case skipattrs r of
        None \<Rightarrow> (\<lambda>k_key desc. Inr (desc, []))
      | Some rules \<Rightarrow> skip_attrs_class rules)"

definition skip_auto_body ::
  "'p rc \<Rightarrow> string \<Rightarrow> classdesc \<Rightarrow> error + classdesc \<times> message list" where
  "skip_auto_body r =
     (case skipauto r of
        None \<Rightarrow> (\<lambda>k_key desc. Inr (desc, []))
      | Some b \<Rightarrow> skip_auto_class (ts r))"

definition include_methods_body ::
  "'p rc \<Rightarrow> string \<Rightarrow> classdesc \<Rightarrow> error + classdesc \<times> message list" where
  "include_methods_body r =
     (case includemethods r of
        None \<Rightarrow> (\<lambda>k_key desc. Inr (desc, []))
      | Some rules \<Rightarrow> include_methods_class rules)"

section \<open>Example inputs\<close>

text \<open>A canonicalizer that knows every type except those that mention \<^verbatim>\<open>unknownclass\<close>.\<close>

definition example_canon :: "ty \<Rightarrow> ty option" where
  "example_canon t = (if ''unknownclass'' \<in> set (flatten t) then None else Some t)"

text \<open>The run control with every rule field unset, over a given registry.\<close>

definition blank_rc :: "env \<Rightarrow> 'p rc" where
  "blank_rc e =
     \<lparr>skiptypes = NotSpecified, skips = None, skipmethods = None, skipattrs = None,
      includemethods = None, skipauto = None, verbose = False, ts = example_canon,
      env = e, stdout = []\<rparr>"

definition float64_matcher :: matcher where
  "float64_matcher = TypeMatcher (Atom ''float64'')"

text \<open>Scenario A of the specification.\<close>

definition foo_desc :: classdesc where
  "foo_desc =
     \<lparr>tarname = ''Foo'', attrs = [(''x'', Atom ''float64''), (''y'', Atom ''int32'')],
      methods = []\<rparr>"

definition foo_rc :: "matcher rc" where
  "foo_rc = (blank_rc [(''mod'', [(''Foo'', ClassDesc foo_desc)])])
              \<lparr>skiptypes := Sequence [float64_matcher]\<rparr>"

definition shape_desc :: classdesc where
  "shape_desc =
     \<lparr>tarname = ''Shape'',
      attrs = [(''origin'', Parametrized ''vector'' [Atom ''float64'']), (''sides'', Atom ''int32'')],
      methods =
        [((MName ''area'', []), Some (Atom ''float64'')),
         ((MName ''scale'', [Arg ''k'' (Atom ''int32''),
                            ArgDefault ''v'' (Parametrized ''vector'' [Atom ''float64'']) ''None'']),
          Some (Atom ''int32'')),
         ((MName ''label'', [Arg ''i'' (Atom ''int32'')]), None)]\<rparr>"

text \<open>A class with two overloads of one method.\<close>

definition overloads_desc :: classdesc where
  "overloads_desc =
     \<lparr>tarname = ''Computer'', attrs = [],
      methods =
        [((MName ''foo'', [Arg ''a'' (Atom ''int32'')]), None),
         ((MName ''foo'', [Arg ''a'' (Atom ''float64'')]), None),
         ((MName ''turnOn'', []), None)]\<rparr>"

definition overloads_env :: env where
  "overloads_env = [(''mod'', [(''Computer'', ClassDesc overloads_desc)])]"

text \<open>The class of the method filtering example of the module's documentation.\<close>

definition computer_desc :: classdesc where
  "computer_desc =
     \<lparr>tarname = ''Computer'',
      attrs = [(''z'', Atom ''unknownclass''), (''x'', Atom ''float64''),
               (''y'', Atom ''int32''), (''w'', Atom ''int32'')],
      methods =
        [((MName ''checkEmail'', []), None), ((MName ''turnOn'', []), None),
         ((MName ''blowUp'', []), None), ((MName ''sleep'', []), None),
         ((MName ''crash'', []), None)]\<rparr>"

definition computer_env :: env where
  "computer_env =
     [(''mod'', [(''Computer'', ClassDesc computer_desc), (''docstring'', OtherDesc ''text'')])]"

definition computer_rc :: "matcher rc" where
  "computer_rc = (blank_rc computer_env)
     \<lparr>skiptypes := Sequence [float64_matcher],
      skipmethods := Some [(''Computer'', [''blowUp'', ''sleep'', ''crash''])],
      skipattrs := Some [(''Computer'', [''w''])],
      includemethods := Some [(''Computer'', [MName ''turnOn''])],
      skipauto := Some True\<rparr>"

text \<open>The same class stored in the registry under a key that is not its target name.\<close>

definition renamed_env :: env where
  "renamed_env = [(''mod'', [(''K'', ClassDesc computer_desc)])]"

definition auto_rc :: "matcher rc" where
  "auto_rc = (blank_rc computer_env)\<lparr>skipauto := Some True\<rparr>"

text \<open>
  A class with a method whose argument has an unknown type and a method whose second
  argument has a default value.
\<close>

definition gadget_desc :: classdesc where
  "gadget_desc =
     \<lparr>tarname = ''Gadget'', attrs = [],
      methods =
        [((MName ''connect'', [Arg ''x'' (Atom ''unknownclass'')]), None),
         ((MName ''resize'', [Arg ''a'' (Atom ''int32''),
                             ArgDefault ''b'' (Atom ''int32'') ''1'']), None)]\<rparr>"

definition gadget_rc :: "matcher rc" where
  "gadget_rc = (blank_rc [(''mod'', [(''Gadget'', ClassDesc gadget_desc)])])
                 \<lparr>skipauto := Some True\<rparr>"

definition unknownclass_matcher :: matcher where
  "unknownclass_matcher = TypeMatcher (Atom ''unknownclass'')"

text \<open>The overloaded class with one prefix to skip, and with the same prefix twice.\<close>

definition once_rc :: "matcher rc" where
  "once_rc = (blank_rc overloads_env)\<lparr>skipmethods := Some [(''Computer'', [''foo''])]\<rparr>"

definition twice_rc :: "matcher rc" where
  "twice_rc = (blank_rc overloads_env)\<lparr>skipmethods := Some [(''Computer'', [''foo'', ''foo''])]\<rparr>"

text \<open>Per-class type rules for \<^verbatim>\<open>Foo\<close>, on a run control without the attribute \<^verbatim>\<open>skips\<close>.\<close>

definition perclass_rc :: "matcher rc" where
  "perclass_rc = (blank_rc [(''mod'', [(''Foo'', ClassDesc foo_desc)])])
     \<lparr>skiptypes := Mapping [(''Foo'', [float64_matcher])]\<rparr>"

definition auto_false_rc :: "matcher rc" where
  "auto_false_rc = (blank_rc computer_env)\<lparr>skipauto := Some False\<rparr>"

text \<open>Rules for the class stored under the key \<^verbatim>\<open>K\<close> with the target name \<^verbatim>\<open>Computer\<close>.\<close>

definition renamed_include_rc :: "matcher rc" where
  "renamed_include_rc =
     (blank_rc renamed_env)\<lparr>includemethods := Some [(''Computer'', [MName ''turnOn''])]\<rparr>"

definition renamed_include_both_rc :: "matcher rc" where
  "renamed_include_both_rc =
     (blank_rc renamed_env)
       \<lparr>includemethods := Some [(''Computer'', [MName ''turnOn'']), (''K'', [MName ''checkEmail''])]\<rparr>"

definition renamed_attrs_rc :: "matcher rc" where
  "renamed_attrs_rc =
     (blank_rc renamed_env)\<lparr>skipattrs := Some [(''Computer'', [''x'']), (''K'', [''y''])]\<rparr>"

definition renamed_attrs_missing_rc :: "matcher rc" where
  "renamed_attrs_missing_rc = (blank_rc renamed_env)\<lparr>skipattrs := Some [(''Computer'', [''x''])]\<rparr>"

text \<open>
  Raw configurations, with strings as raw patterns, a constructor that accepts every
  string but the empty one and a constructor that rejects every string: a value of
  \<^verbatim>\<open>skiptypes\<close> that is neither a mapping nor a sequence, and a sequence with an
  element that the first constructor rejects.
\<close>

definition atom_matcher :: "string \<Rightarrow> error + matcher" where
  "atom_matcher raw = (if raw = [] then Inl MalformedPattern else Inr (TypeMatcher (Atom raw)))"

definition reject_all :: "string \<Rightarrow> error + matcher" where
  "reject_all raw = Inl MalformedPattern"

definition none_rc :: "string rc" where
  "none_rc = (blank_rc computer_env)\<lparr>skiptypes := Unrecognised, skipauto := Some True\<rparr>"

definition bad_sequence_rc :: "string rc" where
  "bad_sequence_rc = (blank_rc computer_env)\<lparr>skiptypes := Sequence [''float64'', []]\<rparr>"

section \<open>Properties\<close>

lemma upto_first_Nil: "upto_first P [] = []"
  by (simp add: upto_first_def)

lemma upto_first_Cons: "upto_first P (x # xs) = (if P x then [x] else x # upto_first P xs)"
  by (simp add: upto_first_def)

lemma upto_first_append:
  "upto_first P (xs @ ys) = (if \<exists>x\<in>set xs. P x then upto_first P xs else xs @ upto_first P ys)"
  by (induction xs) (auto simp: upto_first_Cons)

lemma dict_del_fold:
  "fold dict_del ks d = filter (\<lambda>kv. fst kv \<notin> set ks) d"
  by (induction ks arbitrary: d) (auto simp: dict_del_def intro: filter_cong)

lemma filter_bad_keys:
  assumes "distinct (map fst d)"
  shows "filter (\<lambda>kv. fst kv \<notin> set (map fst (filter B d))) d = filter (\<lambda>kv. \<not> B kv) d"
proof (rule filter_cong[OF refl])
  fix kv assume kv: "kv \<in> set d"
  have "fst kv \<in> set (map fst (filter B d)) \<longleftrightarrow> B kv"
  proof
    assume "fst kv \<in> set (map fst (filter B d))"
    then obtain p where p: "p \<in> set d" "B p" "fst p = fst kv" by auto
    from assms p(1) kv p(3) have "p = kv"
      by (metis eq_key_imp_eq_value prod.collapse)
    with p(2) show "B kv" by simp
  next
    assume "B kv" with kv show "fst kv \<in> set (map fst (filter B d))" by auto
  qed
  then show "(fst kv \<notin> set (map fst (filter B d))) = (\<not> B kv)" by simp
qed

lemma scan_skips_fst: "fst (scan_skips sks t) = (\<exists>tm\<in>set sks. flatmatches tm t)"
  by (induction sks) (auto split: prod.splits)

lemma scan_skips_snd:
  "snd (scan_skips sks t) = upto_first hits (map (\<lambda>tm. (tm, t)) sks)"
  by (induction sks) (auto simp: upto_first_Nil upto_first_Cons hits_def split: prod.splits)

lemma scan_args_fst:
  "fst (scan_args sks as) = (\<exists>a\<in>set as. \<exists>tm\<in>set sks. flatmatches tm (type_of_arg a))"
proof (induction as)
  case Nil
  show ?case by simp
next
  case (Cons a as)
  show ?case
  proof (cases "scan_skips sks (type_of_arg a)")
    case (Pair d calls)
    with scan_skips_fst[of sks "type_of_arg a"]
    have d: "d = (\<exists>tm\<in>set sks. flatmatches tm (type_of_arg a))" by simp
    show ?thesis using Cons.IH Pair d by (cases d) (auto split: prod.splits)
  qed
qed

lemma scan_args_snd:
  "snd (scan_args sks as) =
     upto_first hits (concat (map (\<lambda>a. map (\<lambda>tm. (tm, type_of_arg a)) sks) as))"
proof (induction as)
  case Nil
  show ?case by (simp add: upto_first_Nil)
next
  case (Cons a as)
  obtain d calls where sc: "scan_skips sks (type_of_arg a) = (d, calls)"
    by (cases "scan_skips sks (type_of_arg a)")
  from sc scan_skips_fst[of sks "type_of_arg a"]
  have d: "d = (\<exists>tm\<in>set sks. flatmatches tm (type_of_arg a))" by simp
  from sc scan_skips_snd[of sks "type_of_arg a"]
  have c: "calls = upto_first hits (map (\<lambda>tm. (tm, type_of_arg a)) sks)" by simp
  have ex: "(\<exists>x\<in>set (map (\<lambda>tm. (tm, type_of_arg a)) sks). hits x) = d"
    by (auto simp: d hits_def)
  have nohit: "\<not> d \<Longrightarrow> calls = map (\<lambda>tm. (tm, type_of_arg a)) sks"
    using upto_first_append[of hits "map (\<lambda>tm. (tm, type_of_arg a)) sks" "[]"] ex c
    by (simp add: upto_first_Nil)
  show ?case
  proof (cases d)
    case True
    then show ?thesis using sc c ex by (simp add: upto_first_append)
  next
    case False
    then show ?thesis using sc nohit ex Cons.IH
      by (auto simp: upto_first_append split: prod.splits)
  qed
qed

lemma scan_method_fst:
  "fst (scan_method sks m_key m_ret) =
     (\<exists>tm\<in>set sks. (\<exists>rt. m_ret = Some rt \<and> flatmatches tm rt) \<or>
                   (\<exists>a\<in>set (snd m_key). flatmatches tm (type_of_arg a)))"
proof (cases m_ret)
  case None
  then show ?thesis
    using scan_args_fst[of sks "snd m_key"]
    by (auto simp: scan_method_def split: prod.splits)
next
  case (Some rt)
  obtain d calls where sc: "scan_skips sks rt = (d, calls)" by (cases "scan_skips sks rt")
  with scan_skips_fst[of sks rt] have d: "d = (\<exists>tm\<in>set sks. flatmatches tm rt)" by simp
  show ?thesis
    using Some sc d scan_args_fst[of sks "snd m_key"]
    by (cases d) (auto simp: scan_method_def split: prod.splits)
qed

lemma scan_method_snd:
  "snd (scan_method sks m_key m_ret) = upto_first hits (check_sites sks m_key m_ret)"
proof (cases m_ret)
  case None
  then show ?thesis
    using scan_args_snd[of sks "snd m_key"]
    by (auto simp: scan_method_def check_sites_def split: prod.splits)
next
  case (Some rt)
  obtain d calls where sc: "scan_skips sks rt = (d, calls)" by (cases "scan_skips sks rt")
  with scan_skips_fst[of sks rt] have d: "d = (\<exists>tm\<in>set sks. flatmatches tm rt)" by simp
  from sc scan_skips_snd[of sks rt]
  have c: "calls = upto_first hits (map (\<lambda>tm. (tm, rt)) sks)" by simp
  have ex: "(\<exists>x\<in>set (map (\<lambda>tm. (tm, rt)) sks). hits x) = d"
    by (auto simp: d hits_def)
  have nohit: "\<not> d \<Longrightarrow> calls = map (\<lambda>tm. (tm, rt)) sks"
    using upto_first_append[of hits "map (\<lambda>tm. (tm, rt)) sks" "[]"] ex c
    by (simp add: upto_first_Nil)
  show ?thesis
  proof (cases d)
    case True
    then show ?thesis using Some sc c ex
      by (simp add: scan_method_def check_sites_def upto_first_append)
  next
    case False
    then show ?thesis using Some sc nohit ex scan_args_snd[of sks "snd m_key"]
      by (auto simp: scan_method_def check_sites_def upto_first_append split: prod.splits)
  qed
qed

lemma remove_attrs_keys:
  "remove_attrs sks snap d =
     filter (\<lambda>kv. fst kv \<notin> set (map fst (filter (\<lambda>p. fst (scan_skips sks (snd p))) snap))) d"
proof (induction snap arbitrary: d)
  case Nil
  show ?case by simp
next
  case (Cons p snap)
  obtain n t where p: "p = (n, t)" by (cases p)
  show ?case
  proof (cases "fst (scan_skips sks t)")
    case True
    have "filter (\<lambda>kv. fst kv \<notin> set (map fst (filter (\<lambda>p. fst (scan_skips sks (snd p))) snap)))
            (dict_del n d) =
          filter (\<lambda>kv. fst kv \<notin> insert n (set (map fst (filter (\<lambda>p. fst (scan_skips sks (snd p))) snap)))) d"
      unfolding dict_del_def filter_filter by (rule filter_cong) auto
    then show ?thesis using True by (simp add: p Cons.IH)
  next
    case False
    then show ?thesis by (simp add: p Cons.IH)
  qed
qed

lemma remove_methods_keys:
  "remove_methods sks snap d =
     filter (\<lambda>kv. fst kv \<notin>
        set (map fst (filter (\<lambda>p. fst (scan_method sks (fst p) (snd p))) snap))) d"
proof (induction snap arbitrary: d)
  case Nil
  show ?case by simp
next
  case (Cons p snap)
  obtain n t where p: "p = (n, t)" by (cases p)
  show ?case
  proof (cases "fst (scan_method sks n t)")
    case True
    have "filter (\<lambda>kv. fst kv \<notin>
             set (map fst (filter (\<lambda>p. fst (scan_method sks (fst p) (snd p))) snap)))
            (dict_del n d) =
          filter (\<lambda>kv. fst kv \<notin> insert n
             (set (map fst (filter (\<lambda>p. fst (scan_method sks (fst p) (snd p))) snap)))) d"
      unfolding dict_del_def filter_filter by (rule filter_cong) auto
    then show ?thesis using True by (simp add: p Cons.IH)
  next
    case False
    then show ?thesis by (simp add: p Cons.IH)
  qed
qed

lemma modify_desc_attrs:
  assumes "distinct (map fst (attrs desc))"
  shows "attrs (modify_desc sks desc) =
     filter (\<lambda>kv. \<not> (\<exists>tm\<in>set sks. flatmatches tm (snd kv))) (attrs desc)"
proof -
  have "attrs (modify_desc sks desc) = remove_attrs sks (attrs desc) (attrs desc)"
    by (simp add: modify_desc_def)
  also have "\<dots> = filter (\<lambda>kv. \<not> fst (scan_skips sks (snd kv))) (attrs desc)"
    unfolding remove_attrs_keys by (rule filter_bad_keys[OF assms])
  finally show ?thesis by (simp add: scan_skips_fst)
qed

lemma modify_desc_methods:
  assumes "distinct (map fst (methods desc))"
  shows "methods (modify_desc sks desc) =
     filter (\<lambda>kv. \<not> fst (scan_method sks (fst kv) (snd kv))) (methods desc)"
proof -
  have "methods (modify_desc sks desc) = remove_methods sks (methods desc) (methods desc)"
    by (simp add: modify_desc_def)
  also have "\<dots> = filter (\<lambda>kv. \<not> fst (scan_method sks (fst kv) (snd kv))) (methods desc)"
    unfolding remove_methods_keys by (rule filter_bad_keys[OF assms])
  finally show ?thesis .
qed


subsection \<open>The loops over the registry\<close>

lemma for_module_rel:
  "for_module body md = Inr (md', out) \<Longrightarrow>
   module_rel (\<lambda>k c c'. \<exists>out. body k c = Inr (c', out)) md md'"
proof (induction md arbitrary: md' out)
  case Nil
  then show ?case by simp
next
  case (Cons p md)
  obtain k d where p: "p = (k, d)" by (cases p)
  show ?case
  proof (cases d)
    case (ClassDesc c)
    from Cons.prems show ?thesis unfolding p ClassDesc
      by (auto split: sum.splits prod.splits dest: Cons.IH)
  next
    case (OtherDesc x)
    from Cons.prems show ?thesis unfolding p OtherDesc
      by (auto split: sum.splits prod.splits dest: Cons.IH)
  qed
qed

lemma for_env_rel:
  "for_env body e = Inr (e', out) \<Longrightarrow>
   env_rel (\<lambda>k c c'. \<exists>out. body k c = Inr (c', out)) e e'"
proof (induction e arbitrary: e' out)
  case Nil
  then show ?case by simp
next
  case (Cons p e)
  obtain m md where p: "p = (m, md)" by (cases p)
  from Cons.prems show ?case unfolding p
    by (auto split: sum.splits prod.splits dest: for_module_rel Cons.IH)
qed

lemma module_rel_mono:
  "module_rel R md md' \<Longrightarrow> (\<And>k c c'. R k c c' \<Longrightarrow> S k c c') \<Longrightarrow> module_rel S md md'"
  by (induction R md md' rule: module_rel.induct) auto

lemma env_rel_mono:
  "env_rel R e e' \<Longrightarrow> (\<And>k c c'. R k c c' \<Longrightarrow> S k c c') \<Longrightarrow> env_rel S e e'"
  by (induction R e e' rule: env_rel.induct) (auto intro: module_rel_mono)



lemma module_rel_all:
  "module_rel R md md' \<Longrightarrow> (\<And>k c c'. R k c c' \<Longrightarrow> P k c') \<Longrightarrow> module_all P md'"
  by (induction R md md' rule: module_rel.induct) auto

lemma env_rel_all:
  "env_rel R e e' \<Longrightarrow> (\<And>k c c'. R k c c' \<Longrightarrow> P k c') \<Longrightarrow> env_all P e'"
  by (induction R e e' rule: env_rel.induct) (auto intro: module_rel_all)





lemma module_all_mono:
  "module_all P md \<Longrightarrow> (\<And>k c. P k c \<Longrightarrow> Q k c) \<Longrightarrow> module_all Q md"
  by (induction P md rule: module_all.induct) auto

lemma env_all_mono:
  "env_all P e \<Longrightarrow> (\<And>k c. P k c \<Longrightarrow> Q k c) \<Longrightarrow> env_all Q e"
proof (induction e)
  case Nil
  show ?case by simp
next
  case (Cons p e)
  obtain m md where p: "p = (m, md)" by (cases p)
  from Cons show ?case unfolding p
    using module_all_mono[of P md Q] by auto
qed

lemma module_all_conj:
  "module_all P md \<Longrightarrow> module_all Q md \<Longrightarrow> module_all (\<lambda>k c. P k c \<and> Q k c) md"
  by (induction P md rule: module_all.induct) auto

lemma env_all_conj:
  "env_all P e \<Longrightarrow> env_all Q e \<Longrightarrow> env_all (\<lambda>k c. P k c \<and> Q k c) e"
proof (induction e)
  case Nil
  show ?case by simp
next
  case (Cons p e)
  obtain m md where p: "p = (m, md)" by (cases p)
  from Cons show ?case unfolding p
    using module_all_conj[of P md Q] by auto
qed



lemma for_module_total:
  "module_all (\<lambda>k c. \<exists>c' out. body k c = Inr (c', out)) md \<Longrightarrow>
   \<exists>md' out. for_module body md = Inr (md', out)"
proof (induction md)
  case Nil
  show ?case by simp
next
  case (Cons p md)
  obtain k d where p: "p = (k, d)" by (cases p)
  show ?case
  proof (cases d)
    case (ClassDesc c)
    from Cons show ?thesis unfolding p ClassDesc by auto
  next
    case (OtherDesc x)
    from Cons show ?thesis unfolding p OtherDesc by auto
  qed
qed

lemma for_env_total:
  "env_all (\<lambda>k c. \<exists>c' out. body k c = Inr (c', out)) e \<Longrightarrow>
   \<exists>e' out. for_env body e = Inr (e', out)"
proof (induction e)
  case Nil
  show ?case by simp
next
  case (Cons p e)
  obtain m md where p: "p = (m, md)" by (cases p)
  from Cons.prems obtain md' out where "for_module body md = Inr (md', out)"
    unfolding p using for_module_total[of body md] by auto
  moreover from Cons obtain e' out' where "for_env body e = Inr (e', out')"
    unfolding p by auto
  ultimately show ?case unfolding p by simp
qed



lemma for_env_identity: "for_env (\<lambda>k c. Inr (c, [])) e = Inr (e, [])"
proof -
  have m: "for_module (\<lambda>k c. Inr (c, [])) md = Inr (md, [])" for md
    by (induction "\<lambda>(k::string) (c::classdesc). (Inr (c, []) :: error + classdesc \<times> message list)" md
        rule: for_module.induct) auto
  show ?thesis by (induction e) (auto simp: m)
qed

subsection \<open>Each pass is its body run over the registry\<close>

lemma run_pass_Inr:
  "run_pass h body r = Inr r' \<Longrightarrow>
   \<exists>out. for_env body (env r) = Inr (env r', out) \<and> r' = r\<lparr>env := env r', stdout := stdout r @ h @ out\<rparr>"
  by (auto simp: run_pass_def split: sum.splits)







lemma body_update [simp]:
  "skip_types_body (r\<lparr>env := e, stdout := s\<rparr>) = skip_types_body r"
  "skip_methods_body (r'\<lparr>env := e, stdout := s\<rparr>) = skip_methods_body r'"
  "skip_attrs_body (r'\<lparr>env := e, stdout := s\<rparr>) = skip_attrs_body r'"
  "skip_auto_body (r'\<lparr>env := e, stdout := s\<rparr>) = skip_auto_body r'"
  "include_methods_body (r'\<lparr>env := e, stdout := s\<rparr>) = include_methods_body r'"
  by (simp_all add: skip_types_body_def skip_methods_body_def skip_attrs_body_def
        skip_auto_body_def include_methods_body_def split: skiptypes.splits option.splits)

subsection \<open>Descriptions with entries left out\<close>







lemma filter_keys_clean:
  "kv \<in> set (filter (\<lambda>kv. fst kv \<notin> set (map fst (filter B d))) d) \<Longrightarrow> \<not> B kv"
  by auto

lemma filter_keys_fix:
  "(\<And>kv. kv \<in> set d \<Longrightarrow> \<not> B kv) \<Longrightarrow>
   filter (\<lambda>kv. fst kv \<notin> set (map fst (filter B d))) d = d"
proof -
  assume a: "\<And>kv. kv \<in> set d \<Longrightarrow> \<not> B kv"
  then have "filter B d = []" by (auto simp: filter_empty_conv)
  then show ?thesis by simp
qed

subsection \<open>modify_desc and skip_types\<close>




lemma modify_desc_fix:
  assumes "\<And>kv. kv \<in> set (attrs c) \<Longrightarrow> \<not> fst (scan_skips sks (snd kv))"
    and "\<And>kv. kv \<in> set (methods c) \<Longrightarrow> \<not> fst (scan_method sks (fst kv) (snd kv))"
  shows "modify_desc sks c = c"
proof -
  have "remove_attrs sks (attrs c) (attrs c) = attrs c"
    unfolding remove_attrs_keys using assms(1) by (rule filter_keys_fix)
  moreover have "remove_methods sks (methods c) (methods c) = methods c"
    unfolding remove_methods_keys using assms(2) by (rule filter_keys_fix)
  ultimately show ?thesis by (simp add: modify_desc_def)
qed




subsection \<open>skip_methods\<close>



subsection \<open>skip_attrs\<close>





subsection \<open>skip_auto\<close>

lemma scan_attrs_fst:
  "fst (scan_attrs canon k a) = map fst (filter (\<lambda>kv. canon (snd kv) = None) a)"
proof (induction a)
  case Nil
  show ?case by simp
next
  case (Cons p a)
  obtain n t where p: "p = (n, t)" by (cases p)
  show ?case unfolding p using Cons.IH
    by (cases "scan_attrs canon k a"; cases "canon t") auto
qed


lemma canon_args_find:
  "canon_args canon as = Inr f \<Longrightarrow> f = find (\<lambda>t. canon t = None) (map type_of_arg as)"
proof (induction as)
  case Nil
  then show ?case by simp
next
  case (Cons a as)
  then show ?case by (cases a) (auto split: option.splits)
qed

lemma canon_args_no_default:
  "(\<And>a. a \<in> set as \<Longrightarrow> \<exists>n t. a = Arg n t) \<Longrightarrow> \<exists>f. canon_args canon as = Inr f"
proof (induction as)
  case Nil
  show ?case by simp
next
  case (Cons a as)
  from Cons.prems[of a] obtain n t where a: "a = Arg n t" by auto
  from Cons show ?case unfolding a by (cases "canon t") auto
qed

lemma canon_method_find:
  "canon_method canon m_sig m_attr = Inr f \<Longrightarrow>
   f = find (\<lambda>t. canon t = None) (method_types m_sig m_attr)"
  by (cases m_attr) (auto simp: method_types_def dest: canon_args_find split: option.splits)

lemma canon_method_known:
  assumes "canon_method canon m_sig m_attr = Inr None"
  shows "\<forall>t\<in>set (method_types m_sig m_attr). canon t \<noteq> None"
proof -
  from canon_method_find[OF assms] have "find (\<lambda>t. canon t = None) (method_types m_sig m_attr) = None"
    by simp
  then show ?thesis by (simp add: find_None_iff)
qed

lemma canon_method_no_default:
  "(\<And>a. a \<in> set (snd m_sig) \<Longrightarrow> \<exists>n t. a = Arg n t) \<Longrightarrow>
   \<exists>f. canon_method canon m_sig m_attr = Inr f"
  using canon_args_no_default[of "snd m_sig" canon]
  by (cases m_attr) (auto split: option.splits)

lemma scan_methods_Inr:
  "scan_methods canon k ms = Inr (bl, out) \<Longrightarrow>
   bl = map fst (filter (\<lambda>kv. canon_method canon (fst kv) (snd kv) \<noteq> Inr None) ms) \<and>
   out = map (\<lambda>kv. (''descfilter: removing method {0} from class {1} since it uses unknown type {2}'',
                     [FName (fst (fst kv)), FStr k,
                      FType (the (find (\<lambda>t. canon t = None) (method_types (fst kv) (snd kv))))]))
           (filter (\<lambda>kv. canon_method canon (fst kv) (snd kv) \<noteq> Inr None) ms) \<and>
   (\<forall>kv\<in>set ms. \<exists>f. canon_method canon (fst kv) (snd kv) = Inr f)"
proof (induction ms arbitrary: bl out)
  case Nil
  then show ?case by simp
next
  case (Cons p ms)
  obtain m_sig m_attr where p: "p = (m_sig, m_attr)" by (cases p)
  from Cons.prems obtain failed bl' out' where
    f: "canon_method canon m_sig m_attr = Inr failed"
    and r: "scan_methods canon k ms = Inr (bl', out')"
    unfolding p by (auto split: sum.splits)
  note IH = Cons.IH[OF r]
  show ?case
  proof (cases failed)
    case None
    with Cons.prems f r have "bl = bl'" "out = out'" unfolding p by auto
    with IH f None show ?thesis unfolding p by auto
  next
    case (Some t)
    with Cons.prems f r have
      "bl = m_sig # bl'"
      "out = (''descfilter: removing method {0} from class {1} since it uses unknown type {2}'',
              [FName (fst m_sig), FStr k, FType t]) # out'"
      unfolding p by auto
    moreover from canon_method_find[OF f] Some
    have "the (find (\<lambda>t. canon t = None) (method_types m_sig m_attr)) = t"
      by (metis option.sel)
    ultimately show ?thesis using IH f Some unfolding p by auto
  qed
qed

lemma scan_methods_total:
  "(\<And>kv. kv \<in> set ms \<Longrightarrow> \<exists>f. canon_method canon (fst kv) (snd kv) = Inr f) \<Longrightarrow>
   \<exists>bl out. scan_methods canon k ms = Inr (bl, out)"
proof (induction ms)
  case Nil
  show ?case by simp
next
  case (Cons p ms)
  obtain m_sig m_attr where p: "p = (m_sig, m_attr)" by (cases p)
  from Cons.prems[of p] obtain f where f: "canon_method canon m_sig m_attr = Inr f"
    unfolding p by auto
  from Cons obtain bl out where "scan_methods canon k ms = Inr (bl, out)" by auto
  with f show ?case unfolding p by (cases f) auto
qed

lemma skip_auto_class_Inr:
  assumes "skip_auto_class canon k c = Inr (c', out)"
  shows "c' = c\<lparr>attrs := filter (\<lambda>kv. fst kv \<notin>
                     set (map fst (filter (\<lambda>kv. canon (snd kv) = None) (attrs c)))) (attrs c),
                 methods := filter (\<lambda>kv. fst kv \<notin>
                     set (map fst (filter (\<lambda>kv. canon_method canon (fst kv) (snd kv) \<noteq> Inr None)
                        (methods c)))) (methods c)\<rparr>"
    and "\<forall>kv\<in>set (methods c). \<exists>f. canon_method canon (fst kv) (snd kv) = Inr f"
proof -
  obtain abl aout where a: "scan_attrs canon k (attrs c) = (abl, aout)"
    by (cases "scan_attrs canon k (attrs c)")
  with assms obtain mbl mout where m: "scan_methods canon k (methods c) = Inr (mbl, mout)"
    and c': "c' = c\<lparr>attrs := fold dict_del abl (attrs c), methods := fold dict_del mbl (methods c)\<rparr>"
    by (auto simp: skip_auto_class_def split: sum.splits)
  from a scan_attrs_fst[of canon k "attrs c"]
  have abl: "abl = map fst (filter (\<lambda>kv. canon (snd kv) = None) (attrs c))" by simp
  from scan_methods_Inr[OF m]
  have mbl: "mbl = map fst (filter (\<lambda>kv. canon_method canon (fst kv) (snd kv) \<noteq> Inr None) (methods c))"
    and tot: "\<forall>kv\<in>set (methods c). \<exists>f. canon_method canon (fst kv) (snd kv) = Inr f"
    by auto
  show "c' = c\<lparr>attrs := filter (\<lambda>kv. fst kv \<notin>
                     set (map fst (filter (\<lambda>kv. canon (snd kv) = None) (attrs c)))) (attrs c),
                 methods := filter (\<lambda>kv. fst kv \<notin>
                     set (map fst (filter (\<lambda>kv. canon_method canon (fst kv) (snd kv) \<noteq> Inr None)
                        (methods c)))) (methods c)\<rparr>"
    unfolding c' dict_del_fold abl mbl ..
  show "\<forall>kv\<in>set (methods c). \<exists>f. canon_method canon (fst kv) (snd kv) = Inr f" by (rule tot)
qed


lemma skip_auto_class_clean:
  assumes "skip_auto_class canon k c = Inr (c', out)"
  shows "\<And>kv. kv \<in> set (attrs c') \<Longrightarrow> canon (snd kv) \<noteq> None"
    and "\<And>kv. kv \<in> set (methods c') \<Longrightarrow> canon_method canon (fst kv) (snd kv) = Inr None"
proof -
  note c' = skip_auto_class_Inr(1)[OF assms]
  fix kv
  { assume "kv \<in> set (attrs c')"
    then show "canon (snd kv) \<noteq> None"
      unfolding c' using filter_keys_clean[of kv "\<lambda>kv. canon (snd kv) = None" "attrs c"]
      by simp }
  { assume "kv \<in> set (methods c')"
    then show "canon_method canon (fst kv) (snd kv) = Inr None"
      unfolding c'
      using filter_keys_clean[of kv "\<lambda>kv. canon_method canon (fst kv) (snd kv) \<noteq> Inr None" "methods c"]
      by simp }
qed




subsection \<open>include_methods\<close>

lemma dict_set_fresh: "k \<notin> set (map fst d) \<Longrightarrow> dict_set k v d = d @ [(k, v)]"
  by (simp add: dict_set_def)

lemma copy_methods_suffix:
  assumes "distinct (map fst (pre @ suf))"
  shows "copy_methods (pre @ suf) (filter P (map fst suf)) (filter (\<lambda>kv. P (fst kv)) pre) =
           Inr (filter (\<lambda>kv. P (fst kv)) (pre @ suf))"
  using assms
proof (induction suf arbitrary: pre)
  case Nil
  show ?case by simp
next
  case (Cons kv suf)
  have d: "distinct (map fst ((pre @ [kv]) @ suf))" using Cons.prems by simp
  note IH = Cons.IH[OF d]
  show ?case
  proof (cases "P (fst kv)")
    case True
    have look: "map_of (pre @ kv # suf) (fst kv) = Some (snd kv)"
      using Cons.prems by (intro map_of_is_SomeI) auto
    have fresh: "fst kv \<notin> set (map fst (filter (\<lambda>kv. P (fst kv)) pre))"
      using Cons.prems by auto
    show ?thesis using True look IH
      by (simp add: dict_set_fresh[OF fresh])
  next
    case False
    then show ?thesis using IH by simp
  qed
qed

lemma copy_methods_filter:
  "distinct (map fst meths) \<Longrightarrow>
   copy_methods meths (filter P (map fst meths)) [] = Inr (filter (\<lambda>kv. P (fst kv)) meths)"
  using copy_methods_suffix[of "[]" meths P] by simp

lemma include_methods_class_wf:
  assumes "distinct (map fst (methods c))"
  shows "include_methods_class rules k c =
     (if tarname c \<in> set (map fst rules) then
        (case map_of rules k of
           None \<Rightarrow> Inl (KeyError (KName k))
         | Some names \<Rightarrow>
             Inr (c\<lparr>methods := filter (\<lambda>kv. fst (fst kv) \<in> set names) (methods c)\<rparr>, []))
      else Inr (c, []))"
  using copy_methods_filter[OF assms, of "\<lambda>x. fst x \<in> set names" for names]
  by (auto simp: include_methods_class_def split: option.splits)



subsection \<open>Running a pass again\<close>


lemma run_pass_for_env:
  "run_pass h b r = Inr r' \<Longrightarrow> \<exists>out. for_env b (env r) = Inr (env r', out)"
  by (auto dest: run_pass_Inr)








subsection \<open>The pipeline\<close>






subsection \<open>Unfolding the examples and the passes\<close>

lemmas example_defs =
  blank_rc_def example_canon_def float64_matcher_def foo_desc_def foo_rc_def shape_desc_def
  overloads_desc_def overloads_env_def computer_desc_def computer_env_def computer_rc_def
  renamed_env_def auto_rc_def once_rc_def twice_rc_def perclass_rc_def auto_false_rc_def
  renamed_include_rc_def renamed_include_both_rc_def renamed_attrs_rc_def
  renamed_attrs_missing_rc_def atom_matcher_def reject_all_def none_rc_def bad_sequence_rc_def
  gadget_desc_def gadget_rc_def unknownclass_matcher_def

lemmas pass_defs =
  execute_def and_then_def skip_types_def skip_methods_def skip_attrs_def skip_auto_def
  include_methods_def run_pass_def skip_types_class_def skip_methods_class_def
  skip_attrs_class_def skip_auto_class_def include_methods_class_def modify_desc_def
  scan_method_def dict_del_def dict_set_def

subsection \<open>What modify_desc deletes\<close>

text \<open>
  C1. For every class description with distinct signatures and every matcher list,
  \<^verbatim>\<open>modify_desc\<close> deletes a signature if and only if some matcher flatmatches its return
  type, when it has one, or the type of one of its arguments. The calls of
  \<^verbatim>\<open>flatmatches\<close> made for a signature are the return type against the matchers, then
  the arguments in declared order against the matchers, up to and including the first
  pair that matches.
\<close>

theorem modify_desc_deletes_matching_methods:
  assumes "distinct (map fst (methods desc))"
  shows "methods (modify_desc sks desc) =
           filter (\<lambda>kv. \<not> (\<exists>tm\<in>set sks.
                      (\<exists>r. snd kv = Some r \<and> flatmatches tm r) \<or>
                      (\<exists>a\<in>set (snd (fst kv)). flatmatches tm (type_of_arg a))))
             (methods desc) \<and>
         (\<forall>m_key m_ret.
            fst (scan_method sks m_key m_ret) = (\<exists>c\<in>set (check_sites sks m_key m_ret). hits c) \<and>
            snd (scan_method sks m_key m_ret) = upto_first hits (check_sites sks m_key m_ret))"
proof -
  have "methods (modify_desc sks desc) =
          filter (\<lambda>kv. \<not> fst (scan_method sks (fst kv) (snd kv))) (methods desc)"
    using assms by (rule modify_desc_methods)
  then have a: "methods (modify_desc sks desc) =
           filter (\<lambda>kv. \<not> (\<exists>tm\<in>set sks.
                      (\<exists>r. snd kv = Some r \<and> flatmatches tm r) \<or>
                      (\<exists>a\<in>set (snd (fst kv)). flatmatches tm (type_of_arg a))))
             (methods desc)"
    by (simp only: scan_method_fst)
  have b: "fst (scan_method sks m_key m_ret) = (\<exists>c\<in>set (check_sites sks m_key m_ret). hits c)"
    for m_key m_ret
  proof (cases m_ret)
    case None
    show ?thesis unfolding scan_method_fst None
      by (simp add: check_sites_def hits_def) blast
  next
    case (Some r)
    have "(\<exists>c\<in>set (check_sites sks m_key (Some r)). hits c) =
          ((\<exists>tm\<in>set sks. flatmatches tm r) \<or>
           (\<exists>a\<in>set (snd m_key). \<exists>tm\<in>set sks. flatmatches tm (type_of_arg a)))"
      by (simp add: check_sites_def hits_def bex_Un)
    then show ?thesis unfolding scan_method_fst Some by auto
  qed
  show ?thesis using a b scan_method_snd by blast
qed

text \<open>
  Witness for C1: with the matcher for \<^verbatim>\<open>float64\<close>, the method returning \<^verbatim>\<open>float64\<close>
  and the method with a \<^verbatim>\<open>vector\<close> of \<^verbatim>\<open>float64\<close> as second argument go, the third
  stays.
\<close>

theorem modify_desc_deletes_matching_methods_witness:
  "distinct (map fst (methods shape_desc)) \<and>
   methods (modify_desc [float64_matcher] shape_desc) =
     [((MName ''label'', [Arg ''i'' (Atom ''int32'')]), None)] \<and>
   scan_method [float64_matcher]
     (MName ''scale'', [Arg ''k'' (Atom ''int32''),
                        ArgDefault ''v'' (Parametrized ''vector'' [Atom ''float64'']) ''None''])
     (Some (Atom ''int32'')) =
     (True, [(float64_matcher, Atom ''int32''), (float64_matcher, Atom ''int32''),
             (float64_matcher, Parametrized ''vector'' [Atom ''float64''])])"
proof -
  have d: "distinct (map fst (methods shape_desc))"
    by (simp add: shape_desc_def)
  from modify_desc_deletes_matching_methods[OF d, of "[float64_matcher]"]
  have "methods (modify_desc [float64_matcher] shape_desc) =
          [((MName ''label'', [Arg ''i'' (Atom ''int32'')]), None)]"
    by (simp add: shape_desc_def float64_matcher_def)
  moreover have "scan_method [float64_matcher]
     (MName ''scale'', [Arg ''k'' (Atom ''int32''),
                        ArgDefault ''v'' (Parametrized ''vector'' [Atom ''float64'']) ''None''])
     (Some (Atom ''int32'')) =
     (True, [(float64_matcher, Atom ''int32''), (float64_matcher, Atom ''int32''),
             (float64_matcher, Parametrized ''vector'' [Atom ''float64''])])"
    by (simp add: scan_method_def float64_matcher_def)
  ultimately show ?thesis using d by blast
qed

text \<open>
  C2. For every class description with distinct attribute names and every matcher
  list, the attributes that \<^verbatim>\<open>modify_desc\<close> leaves are those whose type no matcher of
  the list flatmatches. In particular the class \<^verbatim>\<open>Foo\<close> with the attributes \<^verbatim>\<open>x\<close> of type
  \<^verbatim>\<open>float64\<close> and \<^verbatim>\<open>y\<close> of type \<^verbatim>\<open>int32\<close>, filtered by the global list that holds the
  matcher for \<^verbatim>\<open>float64\<close>, ends with \<^verbatim>\<open>y\<close> alone.
\<close>

theorem modify_desc_keeps_unmatched_attrs:
  assumes "distinct (map fst (attrs desc))"
  shows "attrs (modify_desc sks desc) =
           filter (\<lambda>kv. \<not> (\<exists>tm\<in>set sks. flatmatches tm (snd kv))) (attrs desc) \<and>
         attrs (modify_desc [float64_matcher] foo_desc) = [(''y'', Atom ''int32'')] \<and>
         map_sum id env (skip_types foo_rc) =
           Inr [(''mod'', [(''Foo'', ClassDesc (foo_desc\<lparr>attrs := [(''y'', Atom ''int32'')]\<rparr>))])]"
proof -
  have "attrs (modify_desc sks desc) =
           filter (\<lambda>kv. \<not> (\<exists>tm\<in>set sks. flatmatches tm (snd kv))) (attrs desc)"
    using assms by (rule modify_desc_attrs)
  moreover have "attrs (modify_desc [float64_matcher] foo_desc) = [(''y'', Atom ''int32'')]"
    by (simp add: modify_desc_def foo_desc_def float64_matcher_def dict_del_def)
  moreover have "map_sum id env (skip_types foo_rc) =
           Inr [(''mod'', [(''Foo'', ClassDesc (foo_desc\<lparr>attrs := [(''y'', Atom ''int32'')]\<rparr>))])]"
    by (simp add: foo_rc_def blank_rc_def skip_types_def run_pass_def modify_desc_def foo_desc_def
        float64_matcher_def dict_del_def)
  ultimately show ?thesis by blast
qed

text \<open>
  Witness for C2: of the attributes of the class \<^verbatim>\<open>Shape\<close> only the one of type
  \<^verbatim>\<open>int32\<close> is left; the \<^verbatim>\<open>vector\<close> of \<^verbatim>\<open>float64\<close> contains the atom.
\<close>

theorem modify_desc_keeps_unmatched_attrs_witness:
  "distinct (map fst (attrs shape_desc)) \<and>
   attrs (modify_desc [float64_matcher] shape_desc) = [(''sides'', Atom ''int32'')]"
proof -
  have d: "distinct (map fst (attrs shape_desc))"
    by (simp add: shape_desc_def)
  from modify_desc_keeps_unmatched_attrs[OF d, of "[float64_matcher]"]
  have "attrs (modify_desc [float64_matcher] shape_desc) = [(''sides'', Atom ''int32'')]"
    by (simp add: shape_desc_def float64_matcher_def)
  with d show ?thesis by blast
qed

subsection \<open>skip_auto over the registry\<close>

lemma canon_args_append:
  "canon_args canon as = Inr (Some t) \<Longrightarrow> canon_args canon (as @ rest) = Inr (Some t)"
proof (induction as)
  case Nil
  then show ?case by simp
next
  case (Cons a as)
  then show ?case by (cases a) (auto split: option.splits)
qed

lemma canon_method_append:
  "canon_method canon m_sig m_attr = Inr (Some t) \<Longrightarrow>
   canon_method canon (fst m_sig, snd m_sig @ rest) m_attr = Inr (Some t)"
  by (cases m_attr) (auto split: option.splits dest: canon_args_append)

lemma skip_auto_class_two_phase:
  assumes "skip_auto_class canon k c = Inr (c', out)"
  shows "attrs c' = fold dict_del (map fst (filter (\<lambda>kv. canon (snd kv) = None) (attrs c))) (attrs c)"
    and "methods c' =
           fold dict_del
             (map fst (filter (\<lambda>kv. \<exists>t\<in>set (method_types (fst kv) (snd kv)). canon t = None)
                (methods c)))
             (methods c)"
proof -
  note c' = skip_auto_class_Inr(1)[OF assms]
  note tot = skip_auto_class_Inr(2)[OF assms]
  show "attrs c' = fold dict_del (map fst (filter (\<lambda>kv. canon (snd kv) = None) (attrs c))) (attrs c)"
    by (subst c') (simp add: dict_del_fold del: set_map set_filter)
  have "filter (\<lambda>kv. canon_method canon (fst kv) (snd kv) \<noteq> Inr None) (methods c) =
        filter (\<lambda>kv. \<exists>t\<in>set (method_types (fst kv) (snd kv)). canon t = None) (methods c)"
  proof (rule filter_cong[OF refl])
    fix kv assume "kv \<in> set (methods c)"
    with tot obtain f where f: "canon_method canon (fst kv) (snd kv) = Inr f" by blast
    from canon_method_find[OF f]
    have "(f \<noteq> None) = (\<exists>t\<in>set (method_types (fst kv) (snd kv)). canon t = None)"
      by (auto simp: find_None_iff)
    with f show "(canon_method canon (fst kv) (snd kv) \<noteq> Inr None) =
                 (\<exists>t\<in>set (method_types (fst kv) (snd kv)). canon t = None)" by simp
  qed
  then show "methods c' =
           fold dict_del
             (map fst (filter (\<lambda>kv. \<exists>t\<in>set (method_types (fst kv) (snd kv)). canon t = None)
                (methods c)))
             (methods c)"
    by (subst c') (simp add: dict_del_fold del: set_map set_filter)
qed

text \<open>
  What the pass does when it is set and returns: no attribute left in any class
  description has a type that \<^verbatim>\<open>canon\<close> rejects, and no method left has a return type
  or an argument type that \<^verbatim>\<open>canon\<close> rejects. The names deleted from a class are
  collected from the description as it was before the scan and deleted after it. For a
  method the type reported is the first one rejected, and nothing after it is looked at.
\<close>

lemma skip_auto_survivors_known:
  assumes "skip_auto r = Inr r'" and "skipauto r \<noteq> None"
  shows "env_all (\<lambda>k c. (\<forall>kv\<in>set (attrs c). ts r (snd kv) \<noteq> None) \<and>
                        (\<forall>kv\<in>set (methods c).
                           \<forall>t\<in>set (method_types (fst kv) (snd kv)). ts r t \<noteq> None)) (env r') \<and>
         env_rel (\<lambda>k c c'.
             attrs c' =
               fold dict_del (map fst (filter (\<lambda>kv. ts r (snd kv) = None) (attrs c))) (attrs c) \<and>
             methods c' =
               fold dict_del
                 (map fst (filter (\<lambda>kv. \<exists>t\<in>set (method_types (fst kv) (snd kv)). ts r t = None)
                    (methods c)))
                 (methods c)) (env r) (env r') \<and>
         (\<forall>m_sig m_attr t rest.
            canon_method (ts r) m_sig m_attr = Inr (Some t) \<longrightarrow>
              find (\<lambda>t. ts r t = None) (method_types m_sig m_attr) = Some t \<and>
              canon_method (ts r) (fst m_sig, snd m_sig @ rest) m_attr = Inr (Some t))"
proof -
  from assms have rp: "run_pass [] (skip_auto_class (ts r)) r = Inr r'"
    by (auto simp: skip_auto_def)
  from run_pass_for_env[OF rp] obtain out where
    "for_env (skip_auto_class (ts r)) (env r) = Inr (env r', out)" ..
  then have rel: "env_rel (\<lambda>k c c'. \<exists>out. skip_auto_class (ts r) k c = Inr (c', out)) (env r) (env r')"
    by (rule for_env_rel)
  have a: "env_all (\<lambda>k c. (\<forall>kv\<in>set (attrs c). ts r (snd kv) \<noteq> None) \<and>
                        (\<forall>kv\<in>set (methods c).
                           \<forall>t\<in>set (method_types (fst kv) (snd kv)). ts r t \<noteq> None)) (env r')"
    using rel
  proof (rule env_rel_all)
    fix k c c' assume "\<exists>out. skip_auto_class (ts r) k c = Inr (c', out)"
    then obtain out where s: "skip_auto_class (ts r) k c = Inr (c', out)" ..
    show "(\<forall>kv\<in>set (attrs c'). ts r (snd kv) \<noteq> None) \<and>
          (\<forall>kv\<in>set (methods c'). \<forall>t\<in>set (method_types (fst kv) (snd kv)). ts r t \<noteq> None)"
      using skip_auto_class_clean[OF s] canon_method_known by blast
  qed
  have b: "env_rel (\<lambda>k c c'.
             attrs c' =
               fold dict_del (map fst (filter (\<lambda>kv. ts r (snd kv) = None) (attrs c))) (attrs c) \<and>
             methods c' =
               fold dict_del
                 (map fst (filter (\<lambda>kv. \<exists>t\<in>set (method_types (fst kv) (snd kv)). ts r t = None)
                    (methods c)))
                 (methods c)) (env r) (env r')"
    using rel by (rule env_rel_mono) (auto dest: skip_auto_class_two_phase)
  have c: "\<forall>m_sig m_attr t rest.
            canon_method (ts r) m_sig m_attr = Inr (Some t) \<longrightarrow>
              find (\<lambda>t. ts r t = None) (method_types m_sig m_attr) = Some t \<and>
              canon_method (ts r) (fst m_sig, snd m_sig @ rest) m_attr = Inr (Some t)"
    using canon_method_find canon_method_append by metis
  from a b c show ?thesis by blast
qed

text \<open>
  In the class \<^verbatim>\<open>Computer\<close> the attribute \<^verbatim>\<open>z\<close> of type \<^verbatim>\<open>unknownclass\<close> is the only
  entry with a type that the canonicalizer rejects, and no argument has a default value.
\<close>

lemma skip_auto_on_computer:
  "skipauto auto_rc = Some True \<and>
   (\<exists>r'. skip_auto auto_rc = Inr r' \<and>
      env r' =
        [(''mod'',
          [(''Computer'',
            ClassDesc (computer_desc\<lparr>attrs := [(''x'', Atom ''float64''), (''y'', Atom ''int32''),
                                                 (''w'', Atom ''int32'')]\<rparr>)),
           (''docstring'', OtherDesc ''text'')])] \<and>
      env_all (\<lambda>k c. list_all (\<lambda>kv. ts auto_rc (snd kv) \<noteq> None) (attrs c)) (env r'))"
proof -
  have s: "skipauto auto_rc = Some True"
    by (simp add: auto_rc_def blank_rc_def)
  then have n: "skipauto auto_rc \<noteq> None" by simp
  obtain r' where a: "skip_auto auto_rc = Inr r'"
    and e: "env r' =
        [(''mod'',
          [(''Computer'',
            ClassDesc (computer_desc\<lparr>attrs := [(''x'', Atom ''float64''), (''y'', Atom ''int32''),
                                                 (''w'', Atom ''int32'')]\<rparr>)),
           (''docstring'', OtherDesc ''text'')])]"
    by (simp add: auto_rc_def example_defs pass_defs)
  from skip_auto_survivors_known[OF a n]
  have "env_all (\<lambda>k c. (\<forall>kv\<in>set (attrs c). ts auto_rc (snd kv) \<noteq> None) \<and>
                        (\<forall>kv\<in>set (methods c).
                           \<forall>t\<in>set (method_types (fst kv) (snd kv)). ts auto_rc t \<noteq> None)) (env r')"
    by blast
  then have "env_all (\<lambda>k c. list_all (\<lambda>kv. ts auto_rc (snd kv) \<noteq> None) (attrs c)) (env r')"
    by (rule env_all_mono) (simp add: list_all_iff)
  with s a e show ?thesis by blast
qed

text \<open>
  C3. The pass does not always leave the registry free of unknown types. The loop
  \<^verbatim>\<open>for _, arg_type in m_sig[1:]\<close> unpacks every argument into two names, so an argument
  \<^verbatim>\<open>(name, type, default)\<close> raises \<^verbatim>\<open>ValueError\<close>, which \<^verbatim>\<open>except TypeError\<close> does not
  catch. In the class \<^verbatim>\<open>Gadget\<close> the method \<^verbatim>\<open>connect\<close> has an argument of type
  \<^verbatim>\<open>unknownclass\<close> and is put on the blacklist; the scan of \<^verbatim>\<open>resize(a, b=1)\<close> accepts the
  type of \<^verbatim>\<open>a\<close> and then raises on \<^verbatim>\<open>b\<close>. The pass ends there, before the loop that
  deletes the blacklisted signatures, and \<^verbatim>\<open>connect\<close> stays in the registry.
  \<^verbatim>\<open>modify_desc\<close> reads the same arguments with \<^verbatim>\<open>arg[1]\<close>: with a matcher for
  \<^verbatim>\<open>unknownclass\<close> it returns and deletes \<^verbatim>\<open>connect\<close>.
\<close>

theorem skip_auto_raises_on_default_argument:
  "methods gadget_desc =
     [((MName ''connect'', [Arg ''x'' (Atom ''unknownclass'')]), None),
      ((MName ''resize'', [Arg ''a'' (Atom ''int32''), ArgDefault ''b'' (Atom ''int32'') ''1'']),
       None)] \<and>
   canon_method (ts gadget_rc) (MName ''connect'', [Arg ''x'' (Atom ''unknownclass'')]) None =
     Inr (Some (Atom ''unknownclass'')) \<and>
   ts gadget_rc (Atom ''int32'') = Some (Atom ''int32'') \<and>
   canon_method (ts gadget_rc)
     (MName ''resize'', [Arg ''a'' (Atom ''int32''), ArgDefault ''b'' (Atom ''int32'') ''1''])
     None = Inl ValueError \<and>
   scan_methods (ts gadget_rc) ''Gadget'' (methods gadget_desc) = Inl ValueError \<and>
   skip_auto_class (ts gadget_rc) ''Gadget'' gadget_desc = Inl ValueError \<and>
   skip_auto gadget_rc = Inl ValueError \<and>
   methods (modify_desc [unknownclass_matcher] gadget_desc) =
     [((MName ''resize'', [Arg ''a'' (Atom ''int32''), ArgDefault ''b'' (Atom ''int32'') ''1'']),
       None)]"
  by (simp add: example_defs pass_defs)

subsection \<open>Inputs on which a pass does not follow its rule\<close>

text \<open>
  C5. The class \<^verbatim>\<open>Computer\<close> is stored in the registry under the key \<^verbatim>\<open>K\<close>. With the
  allow-list \<^verbatim>\<open>turnOn\<close> for \<^verbatim>\<open>Computer\<close> the pass selects the class by its target name
  and then looks the allow-list up under \<^verbatim>\<open>K\<close>: it raises \<^verbatim>\<open>KeyError\<close>, and when \<^verbatim>\<open>K\<close> is
  a key too it keeps the methods listed under \<^verbatim>\<open>K\<close>, not those listed for \<^verbatim>\<open>Computer\<close>.
\<close>

theorem include_methods_looks_up_registry_key:
  "include_methods renamed_include_rc = Inl (KeyError (KName ''K'')) \<and>
   map_sum id env (include_methods renamed_include_both_rc) =
     Inr [(''mod'',
           [(''K'', ClassDesc (computer_desc\<lparr>methods := [((MName ''checkEmail'', []), None)]\<rparr>))])]"
  by (simp add: example_defs pass_defs)

text \<open>
  When the registry key of the class is its target name, the pass keeps the signatures
  whose name is listed for the class, each with the value stored under it.
\<close>

lemma include_methods_class_same_key:
  assumes "tarname c = k" and "map_of rules k = Some names" and "distinct (map fst (methods c))"
  shows "include_methods_class rules k c =
           Inr (c\<lparr>methods := filter (\<lambda>kv. fst (fst kv) \<in> set names) (methods c)\<rparr>, [])"
proof -
  from assms(2) have "k \<in> set (map fst rules)"
    by (auto dest: map_of_SomeD intro: rev_image_eqI)
  with assms show ?thesis by (simp add: include_methods_class_wf)
qed

text \<open>
  C6. With per-class type rules for \<^verbatim>\<open>Foo\<close> the pass reads the matcher list from
  \<^verbatim>\<open>rc.skips\<close>, not from the normalized \<^verbatim>\<open>rc.skiptypes\<close>: without that attribute it raises
  \<^verbatim>\<open>AttributeError\<close>, and with an empty list stored there for \<^verbatim>\<open>Foo\<close> the attribute of
  type \<^verbatim>\<open>float64\<close> stays.
\<close>

theorem skip_types_mapping_reads_rc_skips:
  "skip_types perclass_rc = Inl (AttributeError ''skips'') \<and>
   map_sum id env (skip_types (perclass_rc\<lparr>skips := Some [(''Foo'', [])]\<rparr>)) =
     Inr [(''mod'', [(''Foo'', ClassDesc foo_desc)])]"
  by (simp add: example_defs pass_defs)

text \<open>
  C7. With the prefix \<^verbatim>\<open>foo\<close> listed twice for a class with two overloads of \<^verbatim>\<open>foo\<close>, the
  second search runs over the keys taken before the first deletion, finds the deleted
  signature again, and the \<^verbatim>\<open>del\<close> raises \<^verbatim>\<open>KeyError\<close>.
\<close>

theorem skip_methods_searches_stale_keys:
  "skip_methods twice_rc = Inl (KeyError (KSig (MName ''foo'', [Arg ''a'' (Atom ''int32'')])))"
  by (simp add: example_defs pass_defs)

text \<open>
  C8. With \<^verbatim>\<open>skipauto\<close> set to \<^verbatim>\<open>False\<close> the pass runs all the same: the attribute \<^verbatim>\<open>z\<close>
  of type \<^verbatim>\<open>unknownclass\<close> is removed.
\<close>

theorem skip_auto_runs_when_false:
  "map_sum id env (skip_auto auto_false_rc) =
     Inr [(''mod'',
           [(''Computer'',
             ClassDesc (computer_desc\<lparr>attrs := [(''x'', Atom ''float64''), (''y'', Atom ''int32''),
                                                  (''w'', Atom ''int32'')]\<rparr>)),
            (''docstring'', OtherDesc ''text'')])]"
  by (simp add: example_defs pass_defs)

text \<open>
  The part of C8 that holds: a pass whose rule is unset returns the run control as it
  is, and an empty rule removes nothing.
\<close>

lemma unset_pass_returns_rc:
  "skiptypes r = NotSpecified \<Longrightarrow> skip_types r = Inr r"
  "skipmethods r' = None \<Longrightarrow> skip_methods r' = Inr r'"
  "skipattrs r' = None \<Longrightarrow> skip_attrs r' = Inr r'"
  "skipauto r' = None \<Longrightarrow> skip_auto r' = Inr r'"
  "includemethods r' = None \<Longrightarrow> include_methods r' = Inr r'"
  by (simp_all add: skip_types_def skip_methods_def skip_attrs_def skip_auto_def
        include_methods_def)

lemma modify_desc_empty: "modify_desc [] c = c"
  by (rule modify_desc_fix) (simp_all add: scan_method_fst)

lemma run_pass_same_env:
  "(\<And>k c. body k c = Inr (c, [])) \<Longrightarrow> \<exists>r'. run_pass h body r = Inr r' \<and> env r' = env r"
proof -
  assume "\<And>k c. body k c = Inr (c, [])"
  then have "body = (\<lambda>k c. Inr (c, []))" by (intro ext) simp
  then show ?thesis by (simp add: run_pass_def for_env_identity)
qed

lemma empty_rule_removes_nothing:
  "skiptypes r = Sequence [] \<or> skiptypes r = Mapping [] \<Longrightarrow>
     \<exists>r1. skip_types r = Inr r1 \<and> env r1 = env r"
  "skipmethods r' = Some [] \<Longrightarrow> \<exists>r1. skip_methods r' = Inr r1 \<and> env r1 = env r'"
  "skipattrs r' = Some [] \<Longrightarrow> \<exists>r1. skip_attrs r' = Inr r1 \<and> env r1 = env r'"
  "includemethods r' = Some [] \<Longrightarrow> \<exists>r1. include_methods r' = Inr r1 \<and> env r1 = env r'"
proof -
  show "skiptypes r = Sequence [] \<or> skiptypes r = Mapping [] \<Longrightarrow>
     \<exists>r1. skip_types r = Inr r1 \<and> env r1 = env r"
    by (auto simp: skip_types_def skip_types_class_def modify_desc_empty intro!: run_pass_same_env)
  show "skipmethods r' = Some [] \<Longrightarrow> \<exists>r1. skip_methods r' = Inr r1 \<and> env r1 = env r'"
    by (auto simp: skip_methods_def skip_methods_class_def intro!: run_pass_same_env)
  show "skipattrs r' = Some [] \<Longrightarrow> \<exists>r1. skip_attrs r' = Inr r1 \<and> env r1 = env r'"
    by (auto simp: skip_attrs_def skip_attrs_class_def intro!: run_pass_same_env)
  show "includemethods r' = Some [] \<Longrightarrow> \<exists>r1. include_methods r' = Inr r1 \<and> env r1 = env r'"
    by (auto simp: include_methods_def include_methods_class_def intro!: run_pass_same_env)
qed

text \<open>
  \<^verbatim>\<open>skip_auto\<close> returns whenever no argument of a method carries a default value.
\<close>

lemma skip_auto_returns:
  assumes "env_all (\<lambda>k c. \<forall>kv\<in>set (methods c). \<forall>a\<in>set (snd (fst kv)). \<exists>n t. a = Arg n t) (env r)"
  shows "\<exists>r'. skip_auto r = Inr r'"
proof -
  have "env_all (\<lambda>k c. \<exists>c' out. skip_auto_class (ts r) k c = Inr (c', out)) (env r)"
    using assms
  proof (rule env_all_mono)
    fix k and c :: classdesc
    assume a: "\<forall>kv\<in>set (methods c). \<forall>a\<in>set (snd (fst kv)). \<exists>n t. a = Arg n t"
    have "\<exists>bl out. scan_methods (ts r) k (methods c) = Inr (bl, out)"
      by (rule scan_methods_total) (use a canon_method_no_default in blast)
    then show "\<exists>c' out. skip_auto_class (ts r) k c = Inr (c', out)"
      by (auto simp: skip_auto_class_def split: prod.splits)
  qed
  from for_env_total[OF this] show ?thesis
    by (cases "skipauto r") (auto simp: skip_auto_def run_pass_def)
qed

subsection \<open>A second run changes nothing only if skip_methods changes nothing\<close>

















subsection \<open>Running the pipeline twice\<close>




subsection \<open>Normalization of the type rules\<close>

lemma map_err_Inl:
  "x \<in> set xs \<Longrightarrow> f x = Inl e \<Longrightarrow> \<exists>y e'. y \<in> set xs \<and> f y = Inl e' \<and> map_err f xs = Inl e'"
proof (induction xs)
  case Nil
  then show ?case by simp
next
  case (Cons a xs)
  show ?case
  proof (cases "f a")
    case (Inl e0)
    then show ?thesis by auto
  next
    case (Inr b)
    with Cons.prems have "x \<in> set xs" by auto
    from Cons.IH[OF this Cons.prems(2)] obtain y e' where
      "y \<in> set xs" "f y = Inl e'" "map_err f xs = Inl e'" by blast
    with Inr show ?thesis by auto
  qed
qed

lemma map_err_malformed:
  assumes "\<forall>y e. f y = Inl e \<longrightarrow> e = MalformedPattern" and "x \<in> set xs" and "f x = Inl e"
  shows "map_err f xs = Inl MalformedPattern"
proof -
  from map_err_Inl[of x xs f e] assms(2,3) obtain y e' where
    "f y = Inl e'" "map_err f xs = Inl e'"
    by blast
  with assms(1) show ?thesis by auto
qed

lemma map_err_Inl_elem: "map_err f xs = Inl e \<Longrightarrow> \<exists>x\<in>set xs. f x = Inl e"
proof (induction xs)
  case Nil
  then show ?case by simp
next
  case (Cons a xs)
  then show ?case by (cases "f a") (auto split: sum.splits)
qed

lemma setup_sequence_malformed:
  assumes "\<forall>y e. new_tm y = Inl e \<longrightarrow> e = MalformedPattern"
    and "skiptypes r = Sequence s" and "raw \<in> set s" and "new_tm raw = Inl e"
  shows "setup_rc new_tm r = Inl MalformedPattern"
proof -
  have "map_err new_tm s = Inl MalformedPattern"
    using assms(1,3,4) by (rule map_err_malformed)
  with assms(2) show ?thesis by (simp add: setup_rc_def)
qed

lemma setup_mapping_malformed:
  assumes mp: "\<forall>y e. new_tm y = Inl e \<longrightarrow> e = MalformedPattern"
    and "skiptypes r = Mapping m" and "(kls, raws) \<in> set m" and "raw \<in> set raws"
    and "new_tm raw = Inl e"
  shows "setup_rc new_tm r = Inl MalformedPattern"
proof -
  define g where "g = (\<lambda>(kls, raw). case map_err new_tm raw of Inl e \<Rightarrow> Inl e
                           | Inr tms \<Rightarrow> (Inr (kls, tms) :: error + string \<times> matcher list))"
  have g: "\<forall>y e'. g y = Inl e' \<longrightarrow> e' = MalformedPattern"
  proof (intro allI impI)
    fix y e' assume a: "g y = Inl e'"
    obtain k rs where y: "y = (k, rs)" by (cases y)
    from a have "map_err new_tm rs = Inl e'" unfolding y g_def by (auto split: sum.splits)
    then have "\<exists>x\<in>set rs. new_tm x = Inl e'" by (rule map_err_Inl_elem)
    with mp show "e' = MalformedPattern" by blast
  qed
  have "map_err new_tm raws = Inl MalformedPattern"
    using mp assms(4,5) by (rule map_err_malformed)
  then have "g (kls, raws) = Inl MalformedPattern" by (simp add: g_def)
  with g assms(3) have "map_err g m = Inl MalformedPattern"
    by (rule map_err_malformed)
  with assms(2) show ?thesis by (simp add: setup_rc_def g_def)
qed

text \<open>
  C9, as stated, fails: a raw \<^verbatim>\<open>skiptypes\<close> value that is neither a mapping nor a
  sequence is not handed to the constructor at all. Even with the constructor that rejects
  every pattern, \<^verbatim>\<open>setup\<close> returns, all passes run (\<^verbatim>\<open>skip_types\<close> prints its line and
  \<^verbatim>\<open>skip_auto\<close> removes the attribute \<^verbatim>\<open>z\<close>), and the value is ignored.
\<close>

theorem unrecognised_skiptypes_is_ignored_counterexample:
  "map_sum id skiptypes (setup_rc reject_all none_rc) = Inr Unrecognised \<and>
   map_sum id stdout (run_plugin reject_all none_rc) =
     Inr [(''descfilter: removing unwanted types from desc dictionary'', []),
          (''descfilter: removing attribute {0} from class {1} since it uses unknown type {2}'',
           [FStr ''z'', FStr ''Computer'', FType (Atom ''unknownclass'')])] \<and>
   map_sum id env (run_plugin reject_all none_rc) =
     Inr [(''mod'',
           [(''Computer'',
             ClassDesc (computer_desc\<lparr>attrs := [(''x'', Atom ''float64''), (''y'', Atom ''int32''),
                                                  (''w'', Atom ''int32'')]\<rparr>)),
            (''docstring'', OtherDesc ''text'')])]"
  by (simp add: example_defs pass_defs run_plugin_def setup_rc_def with_skiptypes_def)

text \<open>
  C9, amended. Let \<^verbatim>\<open>MalformedPattern\<close> be the only error of the matcher constructor. If
  the raw \<^verbatim>\<open>skiptypes\<close> value is a sequence, or a mapping, with an element that the
  constructor rejects, \<^verbatim>\<open>setup\<close> fails with \<^verbatim>\<open>MalformedPattern\<close> and no pass runs; if
  every element is accepted, \<^verbatim>\<open>setup\<close> stores the matchers. A value that is neither a
  mapping nor a sequence is left as it is, and \<^verbatim>\<open>skip_types\<close> then leaves the registry
  unchanged.
\<close>

theorem setup_fails_on_rejected_element:
  assumes "\<forall>y e. new_tm y = Inl e \<longrightarrow> e = MalformedPattern"
  shows "(\<forall>s raw e. skiptypes r = Sequence s \<and> raw \<in> set s \<and> new_tm raw = Inl e \<longrightarrow>
            setup_rc new_tm r = Inl MalformedPattern \<and>
            run_plugin new_tm r = Inl MalformedPattern) \<and>
         (\<forall>m kls raws raw e.
            skiptypes r = Mapping m \<and> (kls, raws) \<in> set m \<and> raw \<in> set raws \<and>
            new_tm raw = Inl e \<longrightarrow>
            setup_rc new_tm r = Inl MalformedPattern \<and>
            run_plugin new_tm r = Inl MalformedPattern) \<and>
         (\<forall>s tms. skiptypes r = Sequence s \<and> map_err new_tm s = Inr tms \<longrightarrow>
            map_sum id skiptypes (setup_rc new_tm r) = Inr (Sequence tms)) \<and>
         (skiptypes r = Unrecognised \<longrightarrow>
            (\<exists>r1. setup_rc new_tm r = Inr r1 \<and> skiptypes r1 = Unrecognised \<and> env r1 = env r \<and>
               (\<exists>r2. skip_types r1 = Inr r2 \<and> env r2 = env r1)))"
proof -
  have a: "setup_rc new_tm r = Inl MalformedPattern \<and> run_plugin new_tm r = Inl MalformedPattern"
    if "skiptypes r = Sequence s" "raw \<in> set s" "new_tm raw = Inl e" for s raw e
    using setup_sequence_malformed[of new_tm r s raw e] assms that
    by (simp add: run_plugin_def and_then_def)
  have b: "setup_rc new_tm r = Inl MalformedPattern \<and> run_plugin new_tm r = Inl MalformedPattern"
    if "skiptypes r = Mapping m" "(kls, raws) \<in> set m" "raw \<in> set raws" "new_tm raw = Inl e"
    for m kls raws raw e
    using setup_mapping_malformed[of new_tm r m kls raws raw e] assms that
    by (simp add: run_plugin_def and_then_def)
  have c: "map_sum id skiptypes (setup_rc new_tm r) = Inr (Sequence tms)"
    if "skiptypes r = Sequence s" "map_err new_tm s = Inr tms" for s tms
    using that by (simp add: setup_rc_def with_skiptypes_def)
  have d: "\<exists>r1. setup_rc new_tm r = Inr r1 \<and> skiptypes r1 = Unrecognised \<and> env r1 = env r \<and>
               (\<exists>r2. skip_types r1 = Inr r2 \<and> env r2 = env r1)"
    if "skiptypes r = Unrecognised"
    using that by (simp add: setup_rc_def with_skiptypes_def skip_types_def)
  from a b c d show ?thesis by blast
qed

text \<open>
  Witness for the amended C9: the constructor that rejects the empty string, and a
  sequence whose second element is the empty string.
\<close>

theorem setup_fails_on_rejected_element_witness:
  "skiptypes bad_sequence_rc = Sequence [''float64'', []] \<and>
   atom_matcher [] = Inl MalformedPattern \<and>
   setup_rc atom_matcher bad_sequence_rc = Inl MalformedPattern \<and>
   run_plugin atom_matcher bad_sequence_rc = Inl MalformedPattern"
proof -
  have h: "\<forall>y e. atom_matcher y = Inl e \<longrightarrow> e = MalformedPattern"
    by (simp add: atom_matcher_def split: if_splits)
  have s: "skiptypes bad_sequence_rc = Sequence [''float64'', []]"
    by (simp add: bad_sequence_rc_def blank_rc_def)
  have m: "atom_matcher [] = Inl MalformedPattern"
    by (simp add: atom_matcher_def)
  have i: "[] \<in> set [''float64'', []]" by simp
  from setup_fails_on_rejected_element[of atom_matcher bad_sequence_rc] h s m i
  have "setup_rc atom_matcher bad_sequence_rc = Inl MalformedPattern \<and>
        run_plugin atom_matcher bad_sequence_rc = Inl MalformedPattern"
    by blast
  with s m show ?thesis by blast
qed

subsection \<open>The rule list of a class is read under its registry key\<close>

















end
